theory Spec2Isabelle
  imports Main "HOL-Library.Finite_Map"
begin

section \<open>Strings\<close>

text \<open>
  Python \<open>str\<close> values are modelled as \<open>string\<close> (a list of characters, each a
  code point below 256).  The whitespace removed by \<open>str.strip()\<close> is what
  \<open>str.isspace\<close> accepts among these: space, tab, line feed, vertical tab, form
  feed, carriage return, the four separators \<open>0x1C\<close> to \<open>0x1F\<close>, next line
  (\<open>0x85\<close>) and no-break space (\<open>0xA0\<close>).
\<close>

definition is_space :: "char \<Rightarrow> bool" where
  "is_space c = (c \<in> set [CHR '' '', CHR 0x09, CHR 0x0A, CHR 0x0B, CHR 0x0C, CHR 0x0D,
                            CHR 0x1C, CHR 0x1D, CHR 0x1E, CHR 0x1F, CHR 0x85, CHR 0xA0])"

definition strip :: "string \<Rightarrow> string" where
  "strip s = rev (dropWhile is_space (rev (dropWhile is_space s)))"

text \<open>\<open>s.strip(ch)\<close> for a single character \<open>ch\<close>.\<close>

definition strip_chars :: "char \<Rightarrow> string \<Rightarrow> string" where
  "strip_chars ch s = rev (dropWhile (\<lambda>c. c = ch) (rev (dropWhile (\<lambda>c. c = ch) s)))"

definition startswith :: "string \<Rightarrow> string \<Rightarrow> bool" where
  "startswith s p = (take (length p) s = p)"

text \<open>The character classes \<open>[0-9]\<close> and \<open>[A-Za-z0-9_]\<close> of the regular expressions.\<close>

definition is_digit :: "char \<Rightarrow> bool" where
  "is_digit c = (let n = (of_char c :: nat) in 48 \<le> n \<and> n \<le> 57)"

definition is_word :: "char \<Rightarrow> bool" where
  "is_word c = (let n = (of_char c :: nat) in
      (65 \<le> n \<and> n \<le> 90) \<or> (97 \<le> n \<and> n \<le> 122) \<or> (48 \<le> n \<and> n \<le> 57) \<or> c = CHR ''_'')"

text \<open>\<open>s.split(sep)\<close> and \<open>sep.join(parts)\<close>.\<close>

fun split :: "char \<Rightarrow> string \<Rightarrow> string list" where
  "split sep [] = [[]]"
| "split sep (c # cs) =
     (if c = sep then [] # split sep cs
      else (case split sep cs of [] \<Rightarrow> [[c]] | p # ps \<Rightarrow> (c # p) # ps))"

fun join :: "string \<Rightarrow> string list \<Rightarrow> string" where
  "join sep [] = []"
| "join sep [p] = p"
| "join sep (p # q # ps) = p @ sep @ join sep (q # ps)"

text \<open>Python compares strings lexicographically by code point.\<close>

fun str_less :: "string \<Rightarrow> string \<Rightarrow> bool" where
  "str_less [] [] = False"
| "str_less [] (y # ys) = True"
| "str_less (x # xs) [] = False"
| "str_less (x # xs) (y # ys) =
     (if x = y then str_less xs ys else (of_char x :: nat) < of_char y)"

section \<open>Desktop mode filter (\<open>apply_desktop_mode_to_flags\<close>, crosside\_cli.py)\<close>

fun filter_compile_flags :: "string list \<Rightarrow> string list" where
  "filter_compile_flags [] = []"
| "filter_compile_flags (flag # flags) =
     (let v = strip flag in
      if v = [] then filter_compile_flags flags
      else if v \<in> {''-DDEBUG'', ''-DNDEBUG'', ''-s''} then filter_compile_flags flags
      else if startswith v ''-O'' then filter_compile_flags flags
      else if startswith v ''-g'' then filter_compile_flags flags
      else v # filter_compile_flags flags)"

fun filter_link_flags :: "string \<Rightarrow> string list \<Rightarrow> string list" where
  "filter_link_flags mode [] = []"
| "filter_link_flags mode (flag # flags) =
     (let v = strip flag in
      if v = [] then filter_link_flags mode flags
      else if v \<in> {''-s'', ''-Wl,-s''} \<and> mode = ''debug'' then filter_link_flags mode flags
      else v # filter_link_flags mode flags)"

definition debug_flags :: "string list" where
  "debug_flags = [''-O0'', ''-g3'', ''-DDEBUG'', ''-fno-omit-frame-pointer'']"

definition release_flags :: "string list" where
  "release_flags = [''-O2'', ''-DNDEBUG'']"

definition apply_desktop_mode_to_flags ::
  "string list \<Rightarrow> string list \<Rightarrow> string list \<Rightarrow> string
     \<Rightarrow> string list \<times> string list \<times> string list" where
  "apply_desktop_mode_to_flags cc_args cpp_args ld_args mode =
     (let cc = filter_compile_flags cc_args;
          cpp = filter_compile_flags cpp_args;
          ld = filter_link_flags mode ld_args
      in if mode = ''debug''
         then (cc @ debug_flags, cpp @ debug_flags, ld)
         else (cc @ release_flags, cpp @ release_flags, ld))"

section \<open>Web link flags (\<open>web_build\<close>, ide\_utils/native\_build.py)\<close>







section \<open>Android package names (\<open>sanitize_android_package_name\<close>, \<open>_sanitize_android_package\<close>)\<close>

text \<open>\<open>re.sub(r"\.+", ".", value)\<close>: every run of dots becomes one dot.\<close>

fun collapse_dots :: "string \<Rightarrow> string" where
  "collapse_dots [] = []"
| "collapse_dots [c] = [c]"
| "collapse_dots (c # d # cs) =
     (if c = CHR ''.'' \<and> d = CHR ''.'' then collapse_dots (d # cs)
      else c # collapse_dots (d # cs))"

text \<open>The \<open>for part in parts\<close> loop that fills \<open>clean_parts\<close>.\<close>

fun clean_parts :: "string list \<Rightarrow> string list" where
  "clean_parts [] = []"
| "clean_parts (part # parts) =
     (let cleaned = filter is_word part in
      if cleaned = [] then clean_parts parts
      else if is_digit (hd cleaned) then (''p'' @ cleaned) # clean_parts parts
      else cleaned # clean_parts parts)"

definition sanitize_android_package_name :: "string \<Rightarrow> string \<Rightarrow> string" where
  "sanitize_android_package_name package_name fallback =
     (let v0 = map (\<lambda>c. if c = CHR ''/'' then CHR ''.'' else c) (strip package_name);
          v1 = filter (\<lambda>c. is_word c \<or> c = CHR ''.'') v0;
          v2 = strip_chars (CHR ''.'') (collapse_dots v1);
          parts = filter (\<lambda>part. part \<noteq> []) (split (CHR ''.'') v2);
          cp = clean_parts parts
      in if length cp < 2 then fallback else join ''.'' cp)"

text \<open>The default value of the \<open>fallback\<close> parameter, used by every caller.\<close>

definition DEFAULT_PACKAGE :: string where
  "DEFAULT_PACKAGE = ''com.djokersoft.game''"

text \<open>
  \<open>_sanitize_android_package\<close> of ide\_utils/android\_pipeline.py has the same body
  as \<open>sanitize_android_package_name\<close> of crosside\_cli.py.
\<close>

definition sanitize_android_package :: "string \<Rightarrow> string \<Rightarrow> string" where
  "sanitize_android_package package_name fallback =
     (let v0 = map (\<lambda>c. if c = CHR ''/'' then CHR ''.'' else c) (strip package_name);
          v1 = filter (\<lambda>c. is_word c \<or> c = CHR ''.'') v0;
          v2 = strip_chars (CHR ''.'') (collapse_dots v1);
          parts = filter (\<lambda>part. part \<noteq> []) (split (CHR ''.'') v2);
          cp = clean_parts parts
      in if length cp < 2 then fallback else join ''.'' cp)"

text \<open>
  The shape of a package name: at least two dot-separated segments, each a
  non-empty word of letters, digits and underscores that does not start with a
  digit.
\<close>

definition valid_segment :: "string \<Rightarrow> bool" where
  "valid_segment seg = (seg \<noteq> [] \<and> list_all is_word seg \<and> \<not> is_digit (hd seg))"

definition well_formed_package :: "string \<Rightarrow> bool" where
  "well_formed_package s =
     (let segs = split (CHR ''.'') s in 2 \<le> length segs \<and> list_all valid_segment segs)"

section \<open>Android manifest handling (ide\_utils/android\_pipeline.py)\<close>

text \<open>
  \<open>search_quoted lit s\<close> is \<open>re.search(lit + '([^"]+)"', s)\<close> for a literal
  \<open>lit\<close>: the leftmost place where \<open>lit\<close> is followed by a non-empty run of
  characters other than the double quote and then a double quote.  The result
  splits \<open>s\<close> around group 1: the text before it, the group, the text after it.
\<close>

fun search_quoted :: "string \<Rightarrow> string \<Rightarrow> (string \<times> string \<times> string) option" where
  "search_quoted lit [] = None"
| "search_quoted lit (c # cs) =
     (let rest = drop (length lit) (c # cs);
          g = takeWhile (\<lambda>x. x \<noteq> CHR 0x22) rest;
          after = dropWhile (\<lambda>x. x \<noteq> CHR 0x22) rest
      in if startswith (c # cs) lit \<and> g \<noteq> [] \<and> after \<noteq> []
         then Some (lit, g, after)
         else map_option (\<lambda>(b, g, a). (c # b, g, a)) (search_quoted lit cs))"

definition PACKAGE_ATTR :: string where
  \<open>PACKAGE_ATTR = ''package="''\<close>

definition ACTIVITY_ATTR :: string where
  \<open>ACTIVITY_ATTR = ''<activity android:name="''\<close>

definition LIB_NAME_ATTR :: string where
  \<open>LIB_NAME_ATTR = ''android:name="android.app.lib_name"''\<close>

definition VALUE_ATTR :: string where
  \<open>VALUE_ATTR = ''android:value="''\<close>

definition ICON_ATTR :: string where
  \<open>ICON_ATTR = ''android:icon="''\<close>

text \<open>
  The library-name pattern: \<open>LIB_NAME_ATTR\<close>, then lazily any characters,
  then \<open>VALUE_ATTR\<close> with its quoted value.
\<close>

fun search_lib :: "string \<Rightarrow> string option" where
  "search_lib [] = None"
| "search_lib (c # cs) =
     (if startswith (c # cs) LIB_NAME_ATTR then
        (case search_quoted VALUE_ATTR (drop (length LIB_NAME_ATTR) (c # cs)) of
           Some (b, g, a) \<Rightarrow> Some g
         | None \<Rightarrow> search_lib cs)
      else search_lib cs)"

text \<open>The icon pattern \<open>android:icon="(@[^"]+)"\<close>.\<close>

fun search_icon :: "string \<Rightarrow> (string \<times> string \<times> string) option" where
  "search_icon [] = None"
| "search_icon (c # cs) =
     (let rest = drop (length ICON_ATTR) (c # cs);
          g = takeWhile (\<lambda>x. x \<noteq> CHR 0x22) rest;
          after = dropWhile (\<lambda>x. x \<noteq> CHR 0x22) rest
      in if startswith (c # cs) ICON_ATTR \<and> startswith g ''@'' \<and> 2 \<le> length g \<and> after \<noteq> []
         then Some (ICON_ATTR, g, after)
         else map_option (\<lambda>(b, g, a). (c # b, g, a)) (search_icon cs))"

definition existing_package :: "string \<Rightarrow> string" where
  "existing_package m = (case search_quoted PACKAGE_ATTR m of Some (b, g, a) \<Rightarrow> g | None \<Rightarrow> [])"

definition existing_activity :: "string \<Rightarrow> string" where
  "existing_activity m = (case search_quoted ACTIVITY_ATTR m of Some (b, g, a) \<Rightarrow> g | None \<Rightarrow> [])"

definition existing_lib :: "string \<Rightarrow> string" where
  "existing_lib m = (case search_lib m of Some g \<Rightarrow> g | None \<Rightarrow> [])"

text \<open>\<open>s.replace(old, new)\<close> for a non-empty \<open>old\<close>.\<close>

function replace :: "string \<Rightarrow> string \<Rightarrow> string \<Rightarrow> string" where
  "replace old new [] = []"
| "replace old new (c # cs) =
     (if old \<noteq> [] \<and> startswith (c # cs) old
      then new @ replace old new (drop (length old) (c # cs))
      else c # replace old new cs)"
  by pat_completeness auto
termination
  by (relation "measure (\<lambda>(old, new, s). length s)") (auto simp: neq_Nil_conv)

definition build_native_manifest ::
  "string \<Rightarrow> string \<Rightarrow> string \<Rightarrow> string \<Rightarrow> string \<Rightarrow> string" where
  "build_native_manifest template package_name label activity lib_name =
     replace ''@appLIBNAME@'' lib_name
       (replace ''@appact@'' activity
          (replace ''@applbl@'' label
             (replace ''@apppkg@'' package_name template)))"

text \<open>
  \<open>os.path.splitext(name)[0]\<close> for a file name without a directory part: the
  name up to its last dot, unless only dots precede that dot.
\<close>

definition splitext_root :: "string \<Rightarrow> string" where
  "splitext_root p =
     (if CHR ''.'' \<in> set p then
        (let stem = rev (tl (dropWhile (\<lambda>c. c \<noteq> CHR ''.'') (rev p)))
         in if list_ex (\<lambda>c. c \<noteq> CHR ''.'') stem then stem else p)
      else p)"

text \<open>
  The resource tree: \<open>None\<close> when \<open>res_root\<close> is not a directory, otherwise its
  entries, each with the listing of that entry when the entry is a directory.
\<close>

type_synonym res_tree = "(string \<times> string list option) list option"

definition has_android_resource :: "res_tree \<Rightarrow> string \<Rightarrow> bool" where
  "has_android_resource res_root resource_ref =
     (if resource_ref = [] \<or> \<not> startswith resource_ref ''@'' then True
      else if startswith resource_ref ''@android:'' then True
      else
        (let v = tl resource_ref in
         if CHR ''/'' \<notin> set v then False
         else
           (let res_type = takeWhile (\<lambda>c. c \<noteq> CHR ''/'') v;
                res_name = tl (dropWhile (\<lambda>c. c \<noteq> CHR ''/'') v)
            in if res_type = [] \<or> res_name = [] then False
               else
                 (case res_root of
                    None \<Rightarrow> False
                  | Some entries \<Rightarrow>
                      list_ex (\<lambda>(entry, listing).
                         (case listing of
                            None \<Rightarrow> False
                          | Some files \<Rightarrow>
                              (entry = res_type \<or> startswith entry (res_type @ ''-'')) \<and>
                              list_ex (\<lambda>filename. splitext_root filename = res_name) files))
                        entries))))"

definition ICON_FALLBACK :: string where
  "ICON_FALLBACK = ''@android:drawable/sym_def_app_icon''"

text \<open>
  \<open>_ensure_manifest_icon_fallback\<close>, on the content of the manifest file
  (\<open>None\<close> when the file is absent: opening it raises, and the exception is
  caught and traced).
\<close>

definition ensure_manifest_icon_fallback :: "res_tree \<Rightarrow> string option \<Rightarrow> string option" where
  "ensure_manifest_icon_fallback res_root manifest =
     (case manifest of
        None \<Rightarrow> None
      | Some manifest_data \<Rightarrow>
          (case search_icon manifest_data of
             None \<Rightarrow> Some manifest_data
           | Some (before, icon_ref, after) \<Rightarrow>
               if has_android_resource res_root icon_ref then Some manifest_data
               else Some (before @ ICON_FALLBACK @ after)))"

text \<open>
  The manifest block of \<open>android_compile_java_native\<close> (\<open>app_type == 0\<close> writes
  the manifest unless the existing one has the same package, activity and
  library name), followed by the icon fallback.  \<open>android_pack\<close> is the
  sanitised package name.
\<close>

definition should_write_manifest ::
  "string option \<Rightarrow> string \<Rightarrow> string \<Rightarrow> string \<Rightarrow> bool" where
  "should_write_manifest manifest android_pack android_activity app_name =
     (case manifest of
        None \<Rightarrow> True
      | Some existing_manifest \<Rightarrow>
          \<not> (existing_package existing_manifest = android_pack \<and>
             existing_activity existing_manifest = android_activity \<and>
             existing_lib existing_manifest = app_name))"

definition manifest_step ::
  "int \<Rightarrow> string \<Rightarrow> string \<Rightarrow> string \<Rightarrow> string \<Rightarrow> string \<Rightarrow> res_tree
     \<Rightarrow> string option \<Rightarrow> string option" where
  "manifest_step app_type app_name android_pack android_label android_activity
       native_manifest_template res_root manifest =
     (let written =
            (if app_type = 0 then
               (if should_write_manifest manifest android_pack android_activity app_name
                then Some (build_native_manifest native_manifest_template android_pack
                             android_label android_activity app_name)
                else manifest)
             else manifest)
      in ensure_manifest_icon_fallback res_root written)"

section \<open>Android packaging pipeline (\<open>android_compile_java_native\<close>)\<close>

text \<open>
  Every \<open>runProcess\<close> of the pipeline is an event; the events carry the
  arguments that depend on the package name.
\<close>

datatype tool_call =
    Keytool
  | AaptResources
  | Javac string
  | D8
  | Dx
  | AaptPackage
  | Apksigner
  | AdbForceStop string
  | AdbInstall
  | AdbUninstall string
  | AdbStart string

text \<open>
  What the pipeline reads from its surroundings: the resource tree, whether the
  debug key exists, the Java sources found after resource generation (each with
  whether its class file exists and is not older), the class files found after
  Java compilation, whether \<open>dx8\<close> is set and exists, which native libraries
  exist, the files of each asset folder, which stale dex files \<open>os.remove\<close>
  manages to delete, the dex files a successful \<open>d8\<close> run leaves behind, and
  which external tool invocations exit with code 0.
\<close>

record pipeline_env =
  res_root :: res_tree
  key_exists :: bool
  java_src_files :: "(string \<times> bool) list"
  class_files :: "string list"
  dx8_exists :: bool
  lib_arm7_exists :: bool
  lib_arm64_exists :: bool
  asset_files :: "string \<Rightarrow> string list"
  removable :: "string \<Rightarrow> bool"
  d8_output :: "string list"
  succeeds :: "tool_call \<Rightarrow> bool"

text \<open>
  The state the pipeline changes: the manifest file, the \<open>.dex\<close> files in the
  \<open>dex\<close> folder, the external tools invoked so far and the entries written
  into the archive with \<open>zip_file.write\<close>.
\<close>

record pipeline_state =
  manifest :: "string option"
  dex_dir :: "string list"
  calls :: "tool_call list"
  archive :: "string list"

definition run_tool :: "pipeline_env \<Rightarrow> tool_call \<Rightarrow> pipeline_state \<Rightarrow> bool \<times> pipeline_state" where
  "run_tool env c st = (succeeds env c, st\<lparr>calls := calls st @ [c]\<rparr>)"

text \<open>The loop over \<open>java_src_files\<close>: \<open>javac\<close> per stale source, stop at the first failure.\<close>

fun compile_java :: "pipeline_env \<Rightarrow> (string \<times> bool) list \<Rightarrow> pipeline_state \<Rightarrow> bool \<times> pipeline_state" where
  "compile_java env [] st = (True, st)"
| "compile_java env ((src, up_to_date) # srcs) st =
     (if up_to_date then compile_java env srcs st
      else
        (case run_tool env (Javac src) st of
           (ok, st1) \<Rightarrow> if \<not> ok then (False, st1) else compile_java env srcs st1))"

text \<open>
  Bytecode translation (lines 362 to 394): nothing when there is no class file;
  otherwise \<open>d8\<close> when available, and \<open>dx\<close> when \<open>d8\<close> was not run or failed.
\<close>

definition translate_bytecode :: "pipeline_env \<Rightarrow> pipeline_state \<Rightarrow> bool \<times> pipeline_state" where
  "translate_bytecode env st =
     (if class_files env = [] then (True, st)
      else
        (let (code_ok, st1) =
               (if dx8_exists env then
                  (case run_tool env D8 st of
                     (ok, s) \<Rightarrow> (ok, if ok then s\<lparr>dex_dir := dex_dir s @ d8_output env\<rparr> else s))
                else (False, st))
         in if \<not> code_ok then
              (case run_tool env Dx st1 of
                 (ok, s) \<Rightarrow>
                   if \<not> ok then (False, s)
                   else (True, s\<lparr>dex_dir := dex_dir s @ [''classes.dex'']\<rparr>))
            else (True, st1)))"

text \<open>The entries appended to the archive after \<open>aapt package\<close> created it.\<close>

definition asset_roots :: "(string \<times> string) list" where
  "asset_roots = [(''scripts'', ''assets/scripts''), (''assets'', ''assets/assets''),
                  (''resources'', ''assets/resources''), (''data'', ''assets/data''),
                  (''media'', ''assets/media'')]"

definition archive_entries :: "pipeline_env \<Rightarrow> string \<Rightarrow> string list \<Rightarrow> string list" where
  "archive_entries env app_name dex_list_files =
     (if lib_arm7_exists env then [''lib/armeabi-v7a/lib'' @ app_name @ ''.so''] else [])
     @ (if lib_arm64_exists env then [''lib/arm64-v8a/lib'' @ app_name @ ''.so''] else [])
     @ concat (map (\<lambda>(host_name, apk_name).
                      map (\<lambda>rel. apk_name @ ''/'' @ rel) (asset_files env host_name))
                   asset_roots)
     @ dex_list_files"

text \<open>Install, with one uninstall-and-retry; the results are not checked.\<close>

definition deploy :: "pipeline_env \<Rightarrow> string \<Rightarrow> pipeline_state \<Rightarrow> pipeline_state" where
  "deploy env android_pack st =
     (case run_tool env AdbInstall st of
        (ok, st1) \<Rightarrow>
          if ok then st1
          else
            (case run_tool env (AdbUninstall android_pack) st1 of
               (ok2, st2) \<Rightarrow> if ok2 then snd (run_tool env AdbInstall st2) else st2))"

text \<open>
  The pipeline, written as its consecutive blocks, last block first; each block
  ends by running the next one.  The result is the returned flag and the final
  state.  Creating the bundle folders and deleting stale generated \<open>R.java\<close>
  files do not influence the control flow and are left out; writing the
  manifest is assumed to succeed.
\<close>

text \<open>Stop, install and optionally start the application.\<close>

definition deploy_block ::
  "pipeline_env \<Rightarrow> string \<Rightarrow> string \<Rightarrow> bool \<Rightarrow> pipeline_state \<Rightarrow> bool \<times> pipeline_state" where
  "deploy_block env android_pack android_activity run_app st9 =
     (let st10 = snd (run_tool env (AdbForceStop (android_pack @ ''/.'' @ android_activity)) st9);
          st11 = deploy env android_pack st10
      in if run_app then
           (case run_tool env (AdbStart (android_pack @ ''/'' @ android_activity)) st11 of
              (start_ok, st12) \<Rightarrow> if \<not> start_ok then (False, st12) else (True, st12))
         else (True, st11))"

text \<open>Create the archive, append the libraries, assets and dex files, sign it.\<close>

definition archive_block ::
  "pipeline_env \<Rightarrow> string \<Rightarrow> string \<Rightarrow> string \<Rightarrow> bool \<Rightarrow> pipeline_state \<Rightarrow> bool \<times> pipeline_state" where
  "archive_block env app_name android_pack android_activity run_app st6 =
     (case run_tool env AaptPackage st6 of (pack_ok, st7) \<Rightarrow>
      if \<not> pack_ok then (False, st7)
      else
        (let st8 = st7\<lparr>archive := archive st7 @ archive_entries env app_name (dex_dir st7)\<rparr>
         in case run_tool env Apksigner st8 of (sign_ok, st9) \<Rightarrow>
            if \<not> sign_ok then (False, st9)
            else deploy_block env android_pack android_activity run_app st9))"

text \<open>Delete the stale dex files and translate the class files.\<close>

definition dex_block ::
  "pipeline_env \<Rightarrow> string \<Rightarrow> string \<Rightarrow> string \<Rightarrow> bool \<Rightarrow> pipeline_state \<Rightarrow> bool \<times> pipeline_state" where
  "dex_block env app_name android_pack android_activity run_app st4 =
     (let st5 = st4\<lparr>dex_dir := filter (\<lambda>f. \<not> removable env f) (dex_dir st4)\<rparr>
      in case translate_bytecode env st5 of (dex_ok, st6) \<Rightarrow>
         if \<not> dex_ok then (False, st6)
         else archive_block env app_name android_pack android_activity run_app st6)"

text \<open>Generate the resources and compile the Java sources.\<close>

definition java_block ::
  "pipeline_env \<Rightarrow> string \<Rightarrow> string \<Rightarrow> string \<Rightarrow> bool \<Rightarrow> pipeline_state \<Rightarrow> bool \<times> pipeline_state" where
  "java_block env app_name android_pack android_activity run_app st2 =
     (case run_tool env AaptResources st2 of (res_ok, st3) \<Rightarrow>
      if \<not> res_ok then (False, st3)
      else
        (case compile_java env (java_src_files env) st3 of (java_ok, st4) \<Rightarrow>
         if \<not> java_ok then (False, st4)
         else dex_block env app_name android_pack android_activity run_app st4))"

text \<open>The function: sanitise the package name, handle the manifest, make the debug key.\<close>

definition android_compile_java_native ::
  "pipeline_env \<Rightarrow> int \<Rightarrow> string \<Rightarrow> string \<Rightarrow> string \<Rightarrow> string \<Rightarrow> bool \<Rightarrow> string
     \<Rightarrow> pipeline_state \<Rightarrow> bool \<times> pipeline_state" where
  "android_compile_java_native env app_type app_name android_pack0 android_label0
       android_activity run_app native_manifest_template st0 =
     (let android_pack = sanitize_android_package android_pack0 DEFAULT_PACKAGE;
          android_label = (if android_label0 = [] \<or> strip android_label0 = [] then app_name
                           else android_label0);
          st1 = st0\<lparr>manifest := manifest_step app_type app_name android_pack android_label
                       android_activity native_manifest_template (res_root env) (manifest st0)\<rparr>
      in case (if \<not> key_exists env then run_tool env Keytool st1 else (True, st1)) of
           (key_ok, st2) \<Rightarrow>
             if \<not> key_ok then (False, st2)
             else java_block env app_name android_pack android_activity run_app st2)"

text \<open>
  Two notions for stating what a run invoked.  \<open>extends P st st'\<close>: the calls
  of \<open>st'\<close> are those of \<open>st\<close> followed by calls from \<open>P\<close>.
  \<open>pipeline_calls\<close>: the calls a run can make for a package name and an
  activity; the two translators are among them only when there are class files.
\<close>

definition extends :: "tool_call set \<Rightarrow> pipeline_state \<Rightarrow> pipeline_state \<Rightarrow> bool" where
  "extends P st st' = (\<exists>new. calls st' = calls st @ new \<and> set new \<subseteq> P)"

definition pipeline_calls :: "pipeline_env \<Rightarrow> string \<Rightarrow> string \<Rightarrow> tool_call set" where
  "pipeline_calls env pk act =
     {Keytool, AaptResources, AaptPackage, Apksigner, AdbInstall,
      AdbForceStop (pk @ ''/.'' @ act), AdbUninstall pk, AdbStart (pk @ ''/'' @ act)}
     \<union> range Javac \<union> (if class_files env = [] then {} else {D8, Dx})"

section \<open>Module descriptors (crosside\_cli.py)\<close>

text \<open>The field \<open>include\<close> is written \<open>include_dirs\<close>.\<close>

record PlatformBlock =
  src :: "string list"
  include_dirs :: "string list"
  cpp_args :: "string list"
  cc_args :: "string list"
  ld_args :: "string list"
  template :: string

record ModuleSpec =
  name :: string
  directory :: string
  static :: bool
  depends :: "string list"
  system :: "string list"
  main_src :: "string list"
  main_include :: "string list"
  main_cpp_args :: "string list"
  main_cc_args :: "string list"
  main_ld_args :: "string list"
  desktop :: PlatformBlock
  android :: PlatformBlock
  web :: PlatformBlock

text \<open>The module registry \<open>Dict[str, ModuleSpec]\<close>: a finite map from names to descriptors.\<close>

type_synonym registry = "(string, ModuleSpec) fmap"

section \<open>Dependency resolver (\<open>topological_modules\<close>, \<open>closure_for_modules\<close>)\<close>

text \<open>
  The three mutable collections of \<open>topological_modules\<close>.  \<open>set.remove\<close>
  raises \<open>KeyError\<close> when the element is absent; a call nested deeper than the
  interpreter's recursion limit raises \<open>RecursionError\<close>.
\<close>

record dfs_state =
  order :: "string list"
  visited :: "string set"
  stack :: "string set"

datatype py_error = KeyError string | RecursionError

text \<open>
  \<open>visit\<close> is the inner function; \<open>visit_deps\<close> is its loop
  \<open>for dep in module.depends\<close>, from the given position on.  \<open>frames\<close> is the
  number of further nested calls the recursion limit allows at the call of
  \<open>visit\<close> (for the loop: at the calls it makes); a call with no frame left
  raises.  \<open>trace_frames\<close> is the nesting depth a call of \<open>ctx.trace\<close> needs
  (the method and what it calls in turn); the text of the warnings is left out.
\<close>

function visit :: "registry \<Rightarrow> nat \<Rightarrow> nat \<Rightarrow> string \<Rightarrow> dfs_state \<Rightarrow> py_error + dfs_state"
  and visit_deps ::
    "registry \<Rightarrow> nat \<Rightarrow> nat \<Rightarrow> string \<Rightarrow> string list \<Rightarrow> dfs_state \<Rightarrow> py_error + dfs_state"
where
  "visit all_modules trace_frames frames nm st =
     (if frames = 0 then Inl RecursionError
      else if nm \<in> visited st then Inr st
      else if nm \<in> stack st then
        (if frames - 1 < trace_frames then Inl RecursionError else Inr st)
      else
        (case fmlookup all_modules nm of
           None \<Rightarrow> if frames - 1 < trace_frames then Inl RecursionError else Inr st
         | Some module \<Rightarrow>
             (case visit_deps all_modules trace_frames (frames - 1) nm (depends module)
                     (st\<lparr>stack := insert nm (stack st)\<rparr>) of
                Inl e \<Rightarrow> Inl e
              | Inr st1 \<Rightarrow>
                  if nm \<notin> stack st1 then Inl (KeyError nm)
                  else Inr (st1\<lparr>stack := stack st1 - {nm},
                                 visited := insert nm (visited st1),
                                 order := order st1 @ [nm]\<rparr>))))"
| "visit_deps all_modules trace_frames frames nm [] st = Inr st"
| "visit_deps all_modules trace_frames frames nm (dep # deps) st =
     (let dep_name = strip dep in
      if dep_name = [] \<or> dep_name = nm then visit_deps all_modules trace_frames frames nm deps st
      else
        (case visit all_modules trace_frames frames dep_name st of
           Inl e \<Rightarrow> Inl e
         | Inr st1 \<Rightarrow> visit_deps all_modules trace_frames frames nm deps st1))"
  by pat_completeness auto
termination
  by (relation "inv_image (less_than <*lex*> less_than)
    (\<lambda>x. case x of
        Inl (all_modules, trace_frames, frames, nm, st) \<Rightarrow> (frames, 0)
      | Inr (all_modules, trace_frames, frames, nm, deps, st) \<Rightarrow> (frames, Suc (length deps)))")
     auto

definition topological_modules ::
  "nat \<Rightarrow> nat \<Rightarrow> string \<Rightarrow> registry \<Rightarrow> py_error + string list" where
  "topological_modules trace_frames frames module_name all_modules =
     (case visit all_modules trace_frames frames module_name
             \<lparr>order = [], visited = {}, stack = {}\<rparr> of
        Inl e \<Rightarrow> Inl e
      | Inr st \<Rightarrow> Inr (order st))"

text \<open>The inner loop of \<open>closure_for_modules\<close> and the function itself.\<close>

fun add_new_items :: "string list \<Rightarrow> string list \<Rightarrow> string list" where
  "add_new_items ordered [] = ordered"
| "add_new_items ordered (item # items) =
     (if item \<notin> set ordered then add_new_items (ordered @ [item]) items
      else add_new_items ordered items)"

fun closure_loop ::
  "nat \<Rightarrow> nat \<Rightarrow> string list \<Rightarrow> registry \<Rightarrow> string list \<Rightarrow> py_error + string list" where
  "closure_loop trace_frames frames [] all_modules ordered = Inr ordered"
| "closure_loop trace_frames frames (nm # module_names) all_modules ordered =
     (case topological_modules trace_frames frames nm all_modules of
        Inl e \<Rightarrow> Inl e
      | Inr items \<Rightarrow>
          closure_loop trace_frames frames module_names all_modules (add_new_items ordered items))"

definition closure_for_modules ::
  "nat \<Rightarrow> nat \<Rightarrow> string list \<Rightarrow> registry \<Rightarrow> py_error + string list" where
  "closure_for_modules trace_frames frames module_names all_modules =
     closure_loop trace_frames frames module_names all_modules []"

text \<open>
  The dependency graph: an edge from a registered module to each stripped,
  non-empty name in its \<open>depends\<close> other than itself; an edge is resolvable
  when its target is registered.
\<close>

definition dep_edges :: "registry \<Rightarrow> (string \<times> string) set" where
  "dep_edges all_modules =
     {(n, d). \<exists>module dep. fmlookup all_modules n = Some module \<and> dep \<in> set (depends module) \<and>
                d = strip dep \<and> d \<noteq> [] \<and> d \<noteq> n \<and> d \<in> fmdom' all_modules}"

definition reachable_modules :: "registry \<Rightarrow> string \<Rightarrow> string set" where
  "reachable_modules all_modules start =
     (if start \<in> fmdom' all_modules then (dep_edges all_modules)\<^sup>* `` {start} else {})"

text \<open>
  Notions for stating the resolver's result.  \<open>ordered_after\<close>: every module of
  the order comes after each of its resolvable dependencies, unless the module
  can be reached from that dependency (the edge closes a cycle).  \<open>dfs_inv\<close> is
  the invariant of the traversal, \<open>visit_post\<close> what a call of \<open>visit\<close> or of its
  loop establishes.
\<close>

definition ordered_after :: "registry \<Rightarrow> string list \<Rightarrow> bool" where
  "ordered_after all_modules ord =
     (\<forall>i < length ord. \<forall>d. (ord ! i, d) \<in> dep_edges all_modules \<longrightarrow>
         d \<in> set (take i ord) \<or> (d, ord ! i) \<in> (dep_edges all_modules)\<^sup>+)"

definition dfs_inv :: "registry \<Rightarrow> dfs_state \<Rightarrow> bool" where
  "dfs_inv all_modules st =
     (visited st = set (order st) \<and> distinct (order st) \<and> visited st \<inter> stack st = {} \<and>
      visited st \<subseteq> fmdom' all_modules \<and>
      (\<forall>v \<in> visited st. \<forall>d. (v, d) \<in> dep_edges all_modules \<longrightarrow> d \<in> visited st \<union> stack st) \<and>
      ordered_after all_modules (order st))"

definition visit_post :: "registry \<Rightarrow> string \<Rightarrow> dfs_state \<Rightarrow> dfs_state \<Rightarrow> bool" where
  "visit_post all_modules nm st st' =
     (stack st' = stack st \<and> dfs_inv all_modules st' \<and>
      (\<exists>new. order st' = order st @ new \<and> set new \<subseteq> reachable_modules all_modules nm))"

section \<open>Flag composition (\<open>collect_module_build_flags\<close>, crosside\_cli.py)\<close>

text \<open>
  What flag composition reads from its surroundings: whether the operating
  system is Windows (\<open>os.name == "nt"\<close>), the path join of \<open>pathlib\<close>
  (\<open>directory / rel\<close>, rendered with \<open>str\<close>) and which files exist.
\<close>

record fs_env =
  os_nt :: bool
  path_join :: "string \<Rightarrow> string \<Rightarrow> string"
  file_exists :: "string \<Rightarrow> bool"

definition append_unique :: "string list \<Rightarrow> string \<Rightarrow> string list" where
  "append_unique items v = (if v \<noteq> [] \<and> v \<notin> set items then items @ [v] else items)"

definition module_platform_block :: "ModuleSpec \<Rightarrow> string \<Rightarrow> PlatformBlock" where
  "module_platform_block module target =
     (if target = ''desktop'' then desktop module
      else if target = ''android'' then android module
      else web module)"

definition module_system_name :: "fs_env \<Rightarrow> string \<Rightarrow> string" where
  "module_system_name env target =
     (if target = ''desktop'' then (if os_nt env then ''windows'' else ''linux'')
      else if target = ''android'' then ''android''
      else ''emscripten'')"

definition include_suffix_for_target :: "fs_env \<Rightarrow> string \<Rightarrow> string" where
  "include_suffix_for_target env target =
     (if target = ''desktop'' then (if os_nt env then ''windows'' else ''linux'')
      else if target = ''android'' then ''android''
      else ''web'')"

definition library_dir_for_module :: "fs_env \<Rightarrow> ModuleSpec \<Rightarrow> string \<Rightarrow> int \<Rightarrow> string" where
  "library_dir_for_module env module target abi =
     (if target = ''desktop''
      then path_join env (directory module) (if os_nt env then ''Windows'' else ''Linux'')
      else if target = ''web'' then path_join env (directory module) ''Web''
      else path_join env (path_join env (directory module) ''Android'')
             (if abi = 1 then ''arm64-v8a'' else ''armeabi-v7a''))"

definition library_file_for_module :: "fs_env \<Rightarrow> ModuleSpec \<Rightarrow> string \<Rightarrow> int \<Rightarrow> string" where
  "library_file_for_module env module target abi =
     path_join env (library_dir_for_module env module target abi)
       (''lib'' @ name module @ (if static module \<or> target = ''web'' then ''.a'' else ''.so''))"

definition include_candidates :: "fs_env \<Rightarrow> ModuleSpec \<Rightarrow> PlatformBlock \<Rightarrow> string \<Rightarrow> string list" where
  "include_candidates env module block target =
     [path_join env (directory module) ''src'',
      path_join env (directory module) ''include'',
      path_join env (path_join env (directory module) ''include'')
        (include_suffix_for_target env target)]
     @ map (path_join env (directory module)) (main_include module)
     @ map (path_join env (directory module)) (include_dirs block)"

definition add_module_include_flags ::
  "fs_env \<Rightarrow> ModuleSpec \<Rightarrow> PlatformBlock \<Rightarrow> string \<Rightarrow> string list \<times> string list
     \<Rightarrow> string list \<times> string list" where
  "add_module_include_flags env module block target args =
     fold (\<lambda>include_path (cc_args, cpp_args).
             (append_unique cc_args (''-I'' @ include_path),
              append_unique cpp_args (''-I'' @ include_path)))
          (include_candidates env module block target) args"

definition add_module_link_flags ::
  "fs_env \<Rightarrow> ModuleSpec \<Rightarrow> PlatformBlock \<Rightarrow> string \<Rightarrow> int \<Rightarrow> string list \<Rightarrow> string list" where
  "add_module_link_flags env module block target abi ld_args0 =
     (let ld1 = append_unique ld_args0 (''-L'' @ library_dir_for_module env module target abi);
          ld2 = (if file_exists env (library_file_for_module env module target abi)
                 then ld1 @ [''-l'' @ name module] else ld1);
          ld3 = ld2 @ filter (\<lambda>flag. flag \<noteq> []) (main_ld_args module);
          ld4 = ld3 @ filter (\<lambda>flag. flag \<noteq> []) (ld_args block)
      in ld4)"

text \<open>The loop \<open>for dep_name in module.depends\<close> of \<open>collect_module_build_flags\<close>.\<close>

fun add_dependency_flags ::
  "fs_env \<Rightarrow> ModuleSpec \<Rightarrow> string \<Rightarrow> int \<Rightarrow> registry \<Rightarrow> string list
     \<Rightarrow> (string list \<times> string list) \<times> string list \<Rightarrow> (string list \<times> string list) \<times> string list" where
  "add_dependency_flags env module target abi all_modules [] acc = acc"
| "add_dependency_flags env module target abi all_modules (dep_name # deps) (cargs, ld) =
     (let nm = strip dep_name in
      if nm = [] \<or> nm = name module
      then add_dependency_flags env module target abi all_modules deps (cargs, ld)
      else
        (case fmlookup all_modules nm of
           None \<Rightarrow> add_dependency_flags env module target abi all_modules deps (cargs, ld)
         | Some dep \<Rightarrow>
             (let dep_block = module_platform_block dep target
              in add_dependency_flags env module target abi all_modules deps
                   (add_module_include_flags env dep dep_block target cargs,
                    add_module_link_flags env dep dep_block target abi ld))))"

definition collect_module_build_flags ::
  "fs_env \<Rightarrow> ModuleSpec \<Rightarrow> string \<Rightarrow> int \<Rightarrow> registry
     \<Rightarrow> string list \<times> string list \<times> string list" where
  "collect_module_build_flags env module target abi all_modules =
     (let block = module_platform_block module target;
          (cc0, cpp0) = add_module_include_flags env module block target ([], []);
          cc1 = fold (\<lambda>flag acc. append_unique acc flag) (main_cc_args module) cc0;
          cc2 = fold (\<lambda>flag acc. append_unique acc flag) (cc_args block) cc1;
          cpp1 = fold (\<lambda>flag acc. append_unique acc flag) (main_cpp_args module) cpp0;
          cpp2 = fold (\<lambda>flag acc. append_unique acc flag) (cpp_args block) cpp1;
          ((cc3, cpp3), ld0) =
             add_dependency_flags env module target abi all_modules (depends module)
               ((cc2, cpp2), []);
          ld1 = fold (\<lambda>flag acc. append_unique acc flag) (main_ld_args module) ld0;
          ld2 = fold (\<lambda>flag acc. append_unique acc flag) (ld_args block) ld1
      in (cc3, cpp3, ld2))"

text \<open>
  Notions for stating what flag composition does to the compile lists.
  \<open>include_flags\<close> are the include flags of one module in the order in which
  \<open>add_module_include_flags\<close> offers them, \<open>dependency_include_flags\<close> those of
  the resolvable dependencies in the order of the dependency loop, and
  \<open>compile_steps\<close> runs the compile-flag steps of
  \<open>collect_module_build_flags\<close> on given lists instead of empty ones.
\<close>

definition include_flags :: "fs_env \<Rightarrow> ModuleSpec \<Rightarrow> string \<Rightarrow> string list" where
  "include_flags env module target =
     map (\<lambda>include_path. ''-I'' @ include_path)
         (include_candidates env module (module_platform_block module target) target)"

fun dependency_include_flags ::
  "fs_env \<Rightarrow> ModuleSpec \<Rightarrow> string \<Rightarrow> registry \<Rightarrow> string list \<Rightarrow> string list" where
  "dependency_include_flags env module target all_modules [] = []"
| "dependency_include_flags env module target all_modules (dep_name # deps) =
     (let nm = strip dep_name in
      if nm = [] \<or> nm = name module
      then dependency_include_flags env module target all_modules deps
      else
        (case fmlookup all_modules nm of
           None \<Rightarrow> dependency_include_flags env module target all_modules deps
         | Some dep \<Rightarrow>
             include_flags env dep target
             @ dependency_include_flags env module target all_modules deps))"

definition compile_steps ::
  "fs_env \<Rightarrow> ModuleSpec \<Rightarrow> string \<Rightarrow> int \<Rightarrow> registry \<Rightarrow> string list \<times> string list
     \<Rightarrow> string list \<times> string list" where
  "compile_steps env module target abi all_modules args =
     (let block = module_platform_block module target;
          (cc0, cpp0) = add_module_include_flags env module block target args;
          cc1 = fold (\<lambda>flag acc. append_unique acc flag) (main_cc_args module) cc0;
          cc2 = fold (\<lambda>flag acc. append_unique acc flag) (cc_args block) cc1;
          cpp1 = fold (\<lambda>flag acc. append_unique acc flag) (main_cpp_args module) cpp0;
          cpp2 = fold (\<lambda>flag acc. append_unique acc flag) (cpp_args block) cpp1
      in fst (add_dependency_flags env module target abi all_modules (depends module)
                ((cc2, cpp2), [])))"

section \<open>Incremental build decision (\<open>desktop_compile\<close>, \<open>web_compile\<close>, \<open>android_compile\<close>)\<close>

datatype decision = Skip | Recompile

text \<open>
  \<open>time.ctime\<close> of the Python library: the local time of a time stamp, rendered
  as in \<open>Thu Jan  1 00:00:00 1970\<close> (day of the week, month, day of the month
  padded with a space, time, year).  The local time zone is a fixed offset from
  UTC in seconds, and the year is rendered with four digits (years 0 to 9999).
  Modification times are the floating-point seconds since the epoch that
  \<open>os.path.getmtime\<close> returns, taken as rational numbers.
\<close>

definition WEEKDAYS :: "string list" where
  "WEEKDAYS = [''Sun'', ''Mon'', ''Tue'', ''Wed'', ''Thu'', ''Fri'', ''Sat'']"

definition MONTHS :: "string list" where
  "MONTHS = [''Jan'', ''Feb'', ''Mar'', ''Apr'', ''May'', ''Jun'',
             ''Jul'', ''Aug'', ''Sep'', ''Oct'', ''Nov'', ''Dec'']"

definition digit_char :: "int \<Rightarrow> char" where
  "digit_char d = char_of (48 + d)"

definition two_digits :: "int \<Rightarrow> string" where
  "two_digits n = [digit_char (n div 10 mod 10), digit_char (n mod 10)]"

definition day_field :: "int \<Rightarrow> string" where
  "day_field d = [if d < 10 then CHR '' '' else digit_char (d div 10), digit_char (d mod 10)]"

definition year_field :: "int \<Rightarrow> string" where
  "year_field y = [digit_char (y div 1000 mod 10), digit_char (y div 100 mod 10),
                   digit_char (y div 10 mod 10), digit_char (y mod 10)]"

text \<open>Year, month and day of a day number counted from 1 January 1970.\<close>

definition civil_from_days :: "int \<Rightarrow> int \<times> int \<times> int" where
  "civil_from_days days =
     (let z = days + 719468;
          era = z div 146097;
          doe = z - era * 146097;
          yoe = (doe - doe div 1460 + doe div 36524 - doe div 146096) div 365;
          y = yoe + era * 400;
          doy = doe - (365 * yoe + yoe div 4 - yoe div 100);
          mp = (5 * doy + 2) div 153;
          d = doy - (153 * mp + 2) div 5 + 1;
          m = (if mp < 10 then mp + 3 else mp - 9)
      in (if m \<le> 2 then y + 1 else y, m, d))"

definition ctime :: "int \<Rightarrow> rat \<Rightarrow> string" where
  "ctime utc_offset t =
     (let secs = \<lfloor>t\<rfloor> + utc_offset;
          days = secs div 86400;
          r = secs mod 86400;
          (y, m, d) = civil_from_days days
      in WEEKDAYS ! nat ((days + 4) mod 7) @ '' '' @ MONTHS ! nat (m - 1) @ '' '' @ day_field d
         @ '' '' @ two_digits (r div 3600) @ '':'' @ two_digits (r mod 3600 div 60)
         @ '':'' @ two_digits (r mod 60) @ '' '' @ year_field y)"

text \<open>
  The decision for one source file: \<open>obj_modified_time\<close> is \<open>None\<close> when the
  object file does not exist.  \<open>desktop_compile\<close> and \<open>web_compile\<close> compare the
  two \<open>time.ctime\<close> strings, \<open>android_compile\<close> compares the time stamps.
\<close>

definition desktop_compile_decision :: "int \<Rightarrow> bool \<Rightarrow> rat \<Rightarrow> rat option \<Rightarrow> decision" where
  "desktop_compile_decision utc_offset full_build src_modified_time obj =
     (if \<not> full_build then
        (case obj of
           Some obj_modified_time \<Rightarrow>
             if str_less (ctime utc_offset src_modified_time) (ctime utc_offset obj_modified_time)
             then Skip else Recompile
         | None \<Rightarrow> Recompile)
      else Recompile)"

definition android_compile_decision :: "bool \<Rightarrow> rat \<Rightarrow> rat option \<Rightarrow> decision" where
  "android_compile_decision full_build src_modified_time obj =
     (if \<not> full_build then
        (case obj of
           Some obj_modified_time \<Rightarrow>
             if src_modified_time \<le> obj_modified_time then Skip else Recompile
         | None \<Rightarrow> Recompile)
      else Recompile)"

section \<open>Building a module for a target (\<open>build_module_target\<close>)\<close>

text \<open>
  The compile and link functions run external tools; each call is an event, and
  \<open>step_ok\<close> says which calls return true.
\<close>

datatype build_step =
    DesktopCompile | DesktopBuild
  | WebCompile | WebBuild
  | AndroidCompile int | AndroidBuild int

text \<open>The loop \<open>for abi in abi_list\<close> of the Android branch.\<close>

fun android_abi_loop ::
  "(build_step \<Rightarrow> bool) \<Rightarrow> int list \<Rightarrow> bool \<times> build_step list \<Rightarrow> bool \<times> build_step list" where
  "android_abi_loop step_ok [] (ok, steps) = (ok, steps)"
| "android_abi_loop step_ok (abi # abi_list) (ok, steps) =
     (if \<not> step_ok (AndroidCompile abi)
      then android_abi_loop step_ok abi_list (False, steps @ [AndroidCompile abi])
      else if \<not> step_ok (AndroidBuild abi)
      then android_abi_loop step_ok abi_list (False, steps @ [AndroidCompile abi, AndroidBuild abi])
      else android_abi_loop step_ok abi_list (ok, steps @ [AndroidCompile abi, AndroidBuild abi]))"

text \<open>
  \<open>build_module_target\<close>: \<open>srcs\<close> is the module's source list after
  \<open>normalize_source_list\<close>.  The result is the returned flag and the calls made.
\<close>

definition build_module_target ::
  "fs_env \<Rightarrow> (build_step \<Rightarrow> bool) \<Rightarrow> ModuleSpec \<Rightarrow> string list \<Rightarrow> string \<Rightarrow> int list
     \<Rightarrow> bool \<times> build_step list" where
  "build_module_target env step_ok module srcs target abi_list =
     (if system module \<noteq> [] \<and> module_system_name env target \<notin> set (system module)
      then (True, [])
      else if srcs = [] then (False, [])
      else if target = ''desktop'' then
        (if \<not> step_ok DesktopCompile then (False, [DesktopCompile])
         else (step_ok DesktopBuild, [DesktopCompile, DesktopBuild]))
      else if target = ''web'' then
        (if \<not> step_ok WebCompile then (False, [WebCompile])
         else (step_ok WebBuild, [WebCompile, WebBuild]))
      else if target = ''android'' then android_abi_loop step_ok abi_list (True, [])
      else (False, []))"

section \<open>Concrete inputs\<close>

definition example_block :: PlatformBlock where
  "example_block = \<lparr>src = [], include_dirs = [], cpp_args = [], cc_args = [], ld_args = [],
                     template = []\<rparr>"

definition example_module :: "string \<Rightarrow> string list \<Rightarrow> string list \<Rightarrow> ModuleSpec" where
  "example_module n deps ld =
     \<lparr>name = n, directory = ''/modules/'' @ n, static = True, depends = deps, system = [],
      main_src = [''src/main.c''], main_include = [], main_cpp_args = [], main_cc_args = [],
      main_ld_args = ld, desktop = example_block, android = example_block, web = example_block\<rparr>"

definition example_env :: fs_env where
  "example_env = \<lparr>os_nt = False, path_join = (\<lambda>d r. d @ ''/'' @ r), file_exists = (\<lambda>p. False)\<rparr>"


definition example_pipeline_env :: "res_tree \<Rightarrow> pipeline_env" where
  "example_pipeline_env res =
     \<lparr>res_root = res, key_exists = True, java_src_files = [], class_files = [],
      dx8_exists = True, lib_arm7_exists = True, lib_arm64_exists = True,
      asset_files = (\<lambda>h. if h = ''assets'' then [''logo.png''] else []),
      removable = (\<lambda>f. True), d8_output = [''classes.dex''], succeeds = (\<lambda>c. True)\<rparr>"

text \<open>The same surroundings, except that no stale dex file can be deleted.\<close>

definition example_stale_env :: pipeline_env where
  "example_stale_env = (example_pipeline_env None)\<lparr>removable := (\<lambda>f. False)\<rparr>"

definition example_state :: "string option \<Rightarrow> pipeline_state" where
  "example_state m = \<lparr>manifest = m, dex_dir = [''classes.dex''], calls = [], archive = []\<rparr>"

definition example_registry :: registry where
  "example_registry = fmap_of_list
     [(''app'', example_module ''app'' [''glfw'', ''openal''] []),
      (''glfw'', example_module ''glfw'' [] [''-lm'']),
      (''openal'', example_module ''openal'' [] [''-lm''])]"

definition example_cycle :: registry where
  "example_cycle = fmap_of_list
     [(''A'', example_module ''A'' [''B''] []), (''B'', example_module ''B'' [''A''] [])]"

text \<open>A module that repeats a compile flag and lists one dependency twice.\<close>

definition example_dup_module :: ModuleSpec where
  "example_dup_module =
     (example_module ''app'' [''glfw'', ''glfw''] [])
       \<lparr>main_cpp_args := [''-Wall'', ''-Wall''], main_cc_args := [''-Wall'', ''-DX'', ''-Wall'']\<rparr>"

text \<open>
  A chain of \<open>n\<close> modules \<open>m\<close>, \<open>mx\<close>, \<open>mxx\<close>, ..., each depending on the next
  name.
\<close>

definition chain_name :: "nat \<Rightarrow> string" where
  "chain_name i = ''m'' @ replicate i (CHR ''x'')"


section \<open>Properties of the desktop mode filter\<close>

lemma filter_compile_flags_mem:
  "v \<in> set (filter_compile_flags flags) \<Longrightarrow>
     v \<noteq> [] \<and> v \<notin> {''-DDEBUG'', ''-DNDEBUG'', ''-s''} \<and>
     \<not> startswith v ''-O'' \<and> \<not> startswith v ''-g''"
  by (induction flags) (auto simp: Let_def split: if_splits)

lemma filter_compile_flags_excl:
  "''-O2'' \<notin> set (filter_compile_flags flags)"
  "''-DNDEBUG'' \<notin> set (filter_compile_flags flags)"
  "''-O0'' \<notin> set (filter_compile_flags flags)"
  "''-g3'' \<notin> set (filter_compile_flags flags)"
  "''-DDEBUG'' \<notin> set (filter_compile_flags flags)"
  using filter_compile_flags_mem [of "''-O2''" flags]
        filter_compile_flags_mem [of "''-DNDEBUG''" flags]
        filter_compile_flags_mem [of "''-O0''" flags]
        filter_compile_flags_mem [of "''-g3''" flags]
        filter_compile_flags_mem [of "''-DDEBUG''" flags]
  by (auto simp: startswith_def)

text \<open>
  C4 (as amended).  In \<open>debug\<close> mode neither compile-flag list contains a
  release-only token (\<open>-O2\<close>, \<open>-DNDEBUG\<close>); in any other mode (\<open>release\<close>)
  neither list contains \<open>-O0\<close>, \<open>-g3\<close> or \<open>-DDEBUG\<close>.  The fourth debug token,
  \<open>-fno-omit-frame-pointer\<close>, is not among the stripped categories and is not
  covered.
\<close>

theorem desktop_mode_exclusive:
  "apply_desktop_mode_to_flags cc_in cpp_in ld_in mode = (cc, cpp, ld) \<Longrightarrow>
     (mode = ''debug'' \<longrightarrow>
        (\<forall>t \<in> {''-O2'', ''-DNDEBUG''}. t \<notin> set cc \<and> t \<notin> set cpp)) \<and>
     (mode \<noteq> ''debug'' \<longrightarrow>
        (\<forall>t \<in> {''-O0'', ''-g3'', ''-DDEBUG''}. t \<notin> set cc \<and> t \<notin> set cpp))"
  by (auto simp: apply_desktop_mode_to_flags_def Let_def debug_flags_def release_flags_def
                 filter_compile_flags_excl split: if_splits)

theorem desktop_mode_exclusive_witness:
  "apply_desktop_mode_to_flags [''-O2'', ''-g3'', ''-Wall''] [''-DNDEBUG'', '' -O0 ''] [''-s''] ''debug''
     = ([''-Wall'', ''-O0'', ''-g3'', ''-DDEBUG'', ''-fno-omit-frame-pointer''],
        [''-O0'', ''-g3'', ''-DDEBUG'', ''-fno-omit-frame-pointer''], []) \<and>
   ''-O2'' \<notin> set [''-Wall'', ''-O0'', ''-g3'', ''-DDEBUG'', ''-fno-omit-frame-pointer''] \<and>
   apply_desktop_mode_to_flags [''-O0'', ''-g3'', ''-Wall''] [''-DDEBUG''] [''-s''] ''release''
     = ([''-Wall'', ''-O2'', ''-DNDEBUG''], [''-O2'', ''-DNDEBUG''], [''-s'']) \<and>
   ''-g3'' \<notin> set [''-Wall'', ''-O2'', ''-DNDEBUG'']"
proof -
  have a: "apply_desktop_mode_to_flags [''-O2'', ''-g3'', ''-Wall''] [''-DNDEBUG'', '' -O0 ''] [''-s''] ''debug''
     = ([''-Wall'', ''-O0'', ''-g3'', ''-DDEBUG'', ''-fno-omit-frame-pointer''],
        [''-O0'', ''-g3'', ''-DDEBUG'', ''-fno-omit-frame-pointer''], [])"
    by (simp add: apply_desktop_mode_to_flags_def Let_def debug_flags_def strip_def
                  is_space_def startswith_def)
  have b: "apply_desktop_mode_to_flags [''-O0'', ''-g3'', ''-Wall''] [''-DDEBUG''] [''-s''] ''release''
     = ([''-Wall'', ''-O2'', ''-DNDEBUG''], [''-O2'', ''-DNDEBUG''], [''-s''])"
    by (simp add: apply_desktop_mode_to_flags_def Let_def release_flags_def strip_def
                  is_space_def startswith_def)
  from desktop_mode_exclusive [OF a] desktop_mode_exclusive [OF b] a b
  show ?thesis by simp
qed

text \<open>
  C4 as stated fails: \<open>-fno-omit-frame-pointer\<close> given in the input survives the
  release filter.
\<close>

theorem desktop_mode_release_keeps_frame_pointer:
  "''-fno-omit-frame-pointer'' \<in>
     set (fst (apply_desktop_mode_to_flags [''-fno-omit-frame-pointer''] [] [] ''release''))"
  by (simp add: apply_desktop_mode_to_flags_def Let_def release_flags_def strip_def
                is_space_def startswith_def)

section \<open>Properties of the web link flags\<close>











section \<open>Properties of package-name sanitising\<close>

lemma split_no_sep: "sep \<notin> set s \<Longrightarrow> split sep s = [s]"
  by (induction s) auto

lemma split_append_sep:
  "sep \<notin> set p \<Longrightarrow> split sep (p @ sep # s) = p # split sep s"
  by (induction p) auto

lemma split_join:
  "ps \<noteq> [] \<Longrightarrow> \<forall>p \<in> set ps. sep \<notin> set p \<Longrightarrow> split sep (join [sep] ps) = ps"
proof (induction "[sep]" ps rule: join.induct)
  case 1
  then show ?case by simp
next
  case (2 p)
  then show ?case by (simp add: split_no_sep)
next
  case (3 p q ps)
  then show ?case by (simp add: split_append_sep)
qed

lemma clean_parts_valid: "list_all valid_segment (clean_parts parts)"
  by (induction parts)
     (auto simp: Let_def valid_segment_def list_all_iff is_word_def is_digit_def)

lemma valid_segment_no_dot: "valid_segment seg \<Longrightarrow> CHR ''.'' \<notin> set seg"
  by (auto simp: valid_segment_def list_all_iff is_word_def)

lemma join_clean_parts_well_formed:
  assumes "\<not> length (clean_parts parts) < 2"
  shows "well_formed_package (join ''.'' (clean_parts parts))"
proof -
  let ?cp = "clean_parts parts"
  have v: "list_all valid_segment ?cp" by (rule clean_parts_valid)
  from assms have ne: "?cp \<noteq> []" by auto
  have "\<forall>p \<in> set ?cp. CHR ''.'' \<notin> set p"
    using v valid_segment_no_dot by (auto simp: list_all_iff)
  then have "split (CHR ''.'') (join ''.'' ?cp) = ?cp"
    using split_join [OF ne] by simp
  then show ?thesis using assms v by (simp add: well_formed_package_def)
qed

lemma sanitize_name_shape:
  "sanitize_android_package_name s fb = fb \<or>
   well_formed_package (sanitize_android_package_name s fb)"
  using join_clean_parts_well_formed
  by (auto simp: sanitize_android_package_name_def Let_def)

lemma sanitize_shape:
  "sanitize_android_package s fb = fb \<or> well_formed_package (sanitize_android_package s fb)"
  using join_clean_parts_well_formed
  by (auto simp: sanitize_android_package_def Let_def)

lemma default_package_well_formed: "well_formed_package DEFAULT_PACKAGE"
  by code_simp

lemma sanitize_default_well_formed:
  "well_formed_package (sanitize_android_package s DEFAULT_PACKAGE)"
  using sanitize_shape [of s DEFAULT_PACKAGE] default_package_well_formed by auto

section \<open>Properties of the Android packaging pipeline\<close>

lemma run_tool_simps [simp]:
  "fst (run_tool env c st) = succeeds env c"
  "calls (snd (run_tool env c st)) = calls st @ [c]"
  "manifest (snd (run_tool env c st)) = manifest st"
  "dex_dir (snd (run_tool env c st)) = dex_dir st"
  "archive (snd (run_tool env c st)) = archive st"
  by (simp_all add: run_tool_def)

lemma compile_java_frame:
  "manifest (snd (compile_java env srcs st)) = manifest st \<and>
   dex_dir (snd (compile_java env srcs st)) = dex_dir st \<and>
   archive (snd (compile_java env srcs st)) = archive st \<and>
   (\<exists>new. calls (snd (compile_java env srcs st)) = calls st @ new \<and> set new \<subseteq> range Javac)"
proof (induction srcs arbitrary: st)
  case Nil
  show ?case by simp
next
  case (Cons a srcs)
  obtain src up where a: "a = (src, up)" by (cases a)
  show ?case
  proof (cases up)
    case True
    with a Cons [of st] show ?thesis by simp
  next
    case False
    show ?thesis
    proof (cases "succeeds env (Javac src)")
      case True
      from Cons [of "snd (run_tool env (Javac src) st)"]
      obtain new where
        "calls (snd (compile_java env srcs (snd (run_tool env (Javac src) st)))) =
           (calls st @ [Javac src]) @ new" "set new \<subseteq> range Javac"
        by auto
      then have "calls (snd (compile_java env srcs (snd (run_tool env (Javac src) st)))) =
           calls st @ (Javac src # new) \<and> set (Javac src # new) \<subseteq> range Javac"
        by auto
      with a False True Cons [of "snd (run_tool env (Javac src) st)"]
      show ?thesis
        by (auto simp: run_tool_def split: prod.splits)
    next
      case f: False
      have "calls st @ [Javac src] = calls st @ [Javac src] \<and> set [Javac src] \<subseteq> range Javac"
        by simp
      with a False f show ?thesis
        by (auto simp: run_tool_def split: prod.splits)
    qed
  qed
qed

lemma translate_bytecode_frame:
  "manifest (snd (translate_bytecode env st)) = manifest st \<and>
   archive (snd (translate_bytecode env st)) = archive st \<and>
   (\<exists>new. calls (snd (translate_bytecode env st)) = calls st @ new \<and> set new \<subseteq> {D8, Dx})"
  by (auto simp: translate_bytecode_def run_tool_def Let_def split: prod.splits if_splits)

lemma translate_bytecode_skip:
  "class_files env = [] \<Longrightarrow> translate_bytecode env st = (True, st)"
  by (simp add: translate_bytecode_def)

lemma deploy_frame:
  "manifest (deploy env pk st) = manifest st \<and>
   dex_dir (deploy env pk st) = dex_dir st \<and>
   archive (deploy env pk st) = archive st \<and>
   (\<exists>new. calls (deploy env pk st) = calls st @ new \<and> set new \<subseteq> {AdbInstall, AdbUninstall pk})"
  by (auto simp: deploy_def run_tool_def split: prod.splits if_splits)


lemma compile_java_simps [simp]:
  "manifest (snd (compile_java env srcs st)) = manifest st"
  "dex_dir (snd (compile_java env srcs st)) = dex_dir st"
  "archive (snd (compile_java env srcs st)) = archive st"
  using compile_java_frame [of env srcs st] by simp_all

lemma translate_bytecode_simps [simp]:
  "manifest (snd (translate_bytecode env st)) = manifest st"
  "archive (snd (translate_bytecode env st)) = archive st"
  using translate_bytecode_frame [of env st] by simp_all

lemma deploy_simps [simp]:
  "manifest (deploy env pk st) = manifest st"
  "dex_dir (deploy env pk st) = dex_dir st"
  "archive (deploy env pk st) = archive st"
  using deploy_frame [of env pk st] by simp_all

lemma extends_refl: "extends P st st"
  by (simp add: extends_def)

lemma extends_run_tool:
  "extends P st0 st \<Longrightarrow> c \<in> P \<Longrightarrow> extends P st0 (snd (run_tool env c st))"
  by (auto simp: extends_def)

lemma extends_compile_java:
  "extends P st0 st \<Longrightarrow> range Javac \<subseteq> P \<Longrightarrow> extends P st0 (snd (compile_java env srcs st))"
  using compile_java_frame [of env srcs st] by (auto simp: extends_def)

lemma extends_translate_bytecode:
  "extends P st0 st \<Longrightarrow> (class_files env \<noteq> [] \<longrightarrow> {D8, Dx} \<subseteq> P) \<Longrightarrow>
     extends P st0 (snd (translate_bytecode env st))"
  using translate_bytecode_frame [of env st] translate_bytecode_skip [of env st]
  by (cases "class_files env = []") (auto simp: extends_def)

lemma extends_deploy:
  "extends P st0 st \<Longrightarrow> {AdbInstall, AdbUninstall pk} \<subseteq> P \<Longrightarrow> extends P st0 (deploy env pk st)"
  using deploy_frame [of env pk st] by (auto simp: extends_def)

lemma extends_update:
  "extends P st0 st \<Longrightarrow> extends P st0 (st\<lparr>manifest := m\<rparr>)"
  "extends P st0 st \<Longrightarrow> extends P st0 (st\<lparr>dex_dir := d\<rparr>)"
  "extends P st0 st \<Longrightarrow> extends P st0 (st\<lparr>archive := a\<rparr>)"
  by (simp_all add: extends_def)

lemmas extends_intros = extends_run_tool extends_compile_java extends_translate_bytecode
  extends_deploy extends_update extends_refl

lemma deploy_block_manifest [simp]:
  "manifest (snd (deploy_block env pk act run st)) = manifest st"
  by (simp add: deploy_block_def Let_def case_prod_beta)

lemma archive_block_manifest [simp]:
  "manifest (snd (archive_block env app pk act run st)) = manifest st"
  by (simp add: archive_block_def Let_def case_prod_beta)

lemma dex_block_manifest [simp]:
  "manifest (snd (dex_block env app pk act run st)) = manifest st"
  by (simp add: dex_block_def Let_def case_prod_beta)

lemma java_block_manifest [simp]:
  "manifest (snd (java_block env app pk act run st)) = manifest st"
  by (simp add: java_block_def Let_def case_prod_beta)

lemma pipeline_manifest:
  "manifest (snd (android_compile_java_native env app_type app pack label act run tmpl st0)) =
     manifest_step app_type app (sanitize_android_package pack DEFAULT_PACKAGE)
       (if label = [] \<or> strip label = [] then app else label) act tmpl (res_root env) (manifest st0)"
  by (simp add: android_compile_java_native_def Let_def case_prod_beta)

lemma deploy_block_extends:
  "extends P st0 st \<Longrightarrow>
     {AdbInstall, AdbForceStop (pk @ ''/.'' @ act), AdbUninstall pk, AdbStart (pk @ ''/'' @ act)} \<subseteq> P \<Longrightarrow>
     extends P st0 (snd (deploy_block env pk act run st))"
  by (auto simp: deploy_block_def Let_def case_prod_beta intro!: extends_intros)

lemma archive_block_extends:
  "extends P st0 st \<Longrightarrow>
     {AaptPackage, Apksigner, AdbInstall, AdbForceStop (pk @ ''/.'' @ act), AdbUninstall pk,
      AdbStart (pk @ ''/'' @ act)} \<subseteq> P \<Longrightarrow>
     extends P st0 (snd (archive_block env app pk act run st))"
  by (auto simp: archive_block_def Let_def case_prod_beta
           intro!: extends_intros deploy_block_extends)

lemma dex_block_extends:
  "extends P st0 st \<Longrightarrow>
     {AaptPackage, Apksigner, AdbInstall, AdbForceStop (pk @ ''/.'' @ act), AdbUninstall pk,
      AdbStart (pk @ ''/'' @ act)} \<subseteq> P \<Longrightarrow>
     (class_files env \<noteq> [] \<longrightarrow> {D8, Dx} \<subseteq> P) \<Longrightarrow>
     extends P st0 (snd (dex_block env app pk act run st))"
  by (auto simp: dex_block_def Let_def case_prod_beta
           intro!: extends_intros archive_block_extends)

lemma java_block_extends:
  "extends P st0 st \<Longrightarrow>
     {AaptResources, AaptPackage, Apksigner, AdbInstall, AdbForceStop (pk @ ''/.'' @ act),
      AdbUninstall pk, AdbStart (pk @ ''/'' @ act)} \<union> range Javac \<subseteq> P \<Longrightarrow>
     (class_files env \<noteq> [] \<longrightarrow> {D8, Dx} \<subseteq> P) \<Longrightarrow>
     extends P st0 (snd (java_block env app pk act run st))"
  by (auto simp: java_block_def Let_def case_prod_beta
           intro!: extends_intros dex_block_extends)

lemma pipeline_extends:
  "extends (pipeline_calls env (sanitize_android_package pack DEFAULT_PACKAGE) act) st0
     (snd (android_compile_java_native env app_type app pack label act run tmpl st0))"
  by (auto simp: android_compile_java_native_def Let_def case_prod_beta pipeline_calls_def
           intro!: extends_intros java_block_extends)


lemma extends_mem: "extends P st st' \<Longrightarrow> c \<in> set (calls st) \<Longrightarrow> c \<in> set (calls st')"
  by (auto simp: extends_def)

lemma compile_java_ok_stale:
  "\<forall>(src, up) \<in> set srcs. up \<or> succeeds env (Javac src) \<Longrightarrow> fst (compile_java env srcs st)"
  by (induction srcs arbitrary: st) (auto simp: run_tool_def split: prod.splits)

lemma deploy_block_frame [simp]:
  "archive (snd (deploy_block env pk act run st)) = archive st"
  by (simp add: deploy_block_def Let_def case_prod_beta)

lemma deploy_block_result:
  "fst (deploy_block env pk act run st) = (run \<longrightarrow> succeeds env (AdbStart (pk @ ''/'' @ act)))"
  by (simp add: deploy_block_def Let_def case_prod_beta)

lemma archive_block_called:
  "AaptPackage \<in> set (calls (snd (archive_block env app pk act run st)))"
proof (cases "succeeds env AaptPackage \<and> succeeds env Apksigner")
  case True
  have "extends UNIV
          (snd (run_tool env Apksigner
             ((snd (run_tool env AaptPackage st))
                \<lparr>archive := archive (snd (run_tool env AaptPackage st))
                    @ archive_entries env app (dex_dir (snd (run_tool env AaptPackage st)))\<rparr>)))
          (snd (deploy_block env pk act run
             (snd (run_tool env Apksigner
               ((snd (run_tool env AaptPackage st))
                  \<lparr>archive := archive (snd (run_tool env AaptPackage st))
                      @ archive_entries env app (dex_dir (snd (run_tool env AaptPackage st)))\<rparr>)))))"
    by (rule deploy_block_extends [OF extends_refl]) simp
  from extends_mem [OF this, of AaptPackage] True show ?thesis
    by (simp add: archive_block_def Let_def case_prod_beta)
next
  case False
  then show ?thesis
    by (auto simp: archive_block_def Let_def case_prod_beta)
qed

lemma archive_block_archive:
  "succeeds env AaptPackage \<Longrightarrow>
     archive (snd (archive_block env app pk act run st)) =
       archive st @ archive_entries env app (dex_dir st)"
  by (simp add: archive_block_def Let_def case_prod_beta)

lemma archive_block_result:
  "fst (archive_block env app pk act run st) =
     (succeeds env AaptPackage \<and> succeeds env Apksigner \<and>
      (run \<longrightarrow> succeeds env (AdbStart (pk @ ''/'' @ act))))"
  by (auto simp: archive_block_def Let_def case_prod_beta deploy_block_result)

lemma dex_block_skip:
  "class_files env = [] \<Longrightarrow>
     dex_block env app pk act run st =
       archive_block env app pk act run (st\<lparr>dex_dir := filter (\<lambda>f. \<not> removable env f) (dex_dir st)\<rparr>)"
  by (simp add: dex_block_def Let_def translate_bytecode_skip)

lemma java_block_reaches_dex:
  "succeeds env AaptResources \<Longrightarrow>
   \<forall>(src, up) \<in> set (java_src_files env). up \<or> succeeds env (Javac src) \<Longrightarrow>
     java_block env app pk act run st =
       dex_block env app pk act run
         (snd (compile_java env (java_src_files env) (snd (run_tool env AaptResources st))))"
  using compile_java_ok_stale [of "java_src_files env" env "snd (run_tool env AaptResources st)"]
  by (simp add: java_block_def case_prod_beta)

lemma pipeline_reaches_java:
  "key_exists env \<or> succeeds env Keytool \<Longrightarrow>
   \<exists>st2. android_compile_java_native env app_type app pack label act run tmpl st0 =
           java_block env app (sanitize_android_package pack DEFAULT_PACKAGE) act run st2 \<and>
         dex_dir st2 = dex_dir st0 \<and> archive st2 = archive st0"
  by (auto simp: android_compile_java_native_def Let_def case_prod_beta)

lemma pipeline_no_class_files:
  assumes "class_files env = []"
      and "key_exists env \<or> succeeds env Keytool"
      and "succeeds env AaptResources"
      and "\<forall>(src, up) \<in> set (java_src_files env). up \<or> succeeds env (Javac src)"
  shows "AaptPackage \<in> set (calls (snd (android_compile_java_native env app_type app pack label act
                                           run tmpl st0)))"
    and "succeeds env AaptPackage \<Longrightarrow>
         archive (snd (android_compile_java_native env app_type app pack label act run tmpl st0)) =
           archive st0 @ archive_entries env app (filter (\<lambda>f. \<not> removable env f) (dex_dir st0))"
    and "fst (android_compile_java_native env app_type app pack label act run tmpl st0) =
           (succeeds env AaptPackage \<and> succeeds env Apksigner \<and>
            (run \<longrightarrow> succeeds env
               (AdbStart (sanitize_android_package pack DEFAULT_PACKAGE @ ''/'' @ act))))"
proof -
  from pipeline_reaches_java [OF assms(2), of app_type app pack label act run tmpl st0]
  obtain st2 where
    e: "android_compile_java_native env app_type app pack label act run tmpl st0 =
          java_block env app (sanitize_android_package pack DEFAULT_PACKAGE) act run st2"
    and d: "dex_dir st2 = dex_dir st0" and a: "archive st2 = archive st0"
    by blast
  note r = e java_block_reaches_dex [OF assms(3) assms(4)] dex_block_skip [OF assms(1)]
  show "AaptPackage \<in> set (calls (snd (android_compile_java_native env app_type app pack label act
                                           run tmpl st0)))"
    by (simp add: r archive_block_called)
  show "succeeds env AaptPackage \<Longrightarrow>
         archive (snd (android_compile_java_native env app_type app pack label act run tmpl st0)) =
           archive st0 @ archive_entries env app (filter (\<lambda>f. \<not> removable env f) (dex_dir st0))"
    by (simp add: r archive_block_archive d a)
  show "fst (android_compile_java_native env app_type app pack label act run tmpl st0) =
           (succeeds env AaptPackage \<and> succeeds env Apksigner \<and>
            (run \<longrightarrow> succeeds env
               (AdbStart (sanitize_android_package pack DEFAULT_PACKAGE @ ''/'' @ act))))"
    by (simp add: r archive_block_result)
qed


lemma pipeline_reaches_java_extends:
  "key_exists env \<or> succeeds env Keytool \<Longrightarrow>
   \<exists>st2. android_compile_java_native env app_type app pack label act run tmpl st0 =
           java_block env app (sanitize_android_package pack DEFAULT_PACKAGE) act run st2 \<and>
         extends UNIV st0 st2"
  by (auto simp: android_compile_java_native_def Let_def case_prod_beta
           intro!: extends_intros)

lemma archive_block_called_new:
  "\<exists>new. calls (snd (archive_block env app pk act run st)) = calls st @ new \<and>
         AaptPackage \<in> set new"
proof (cases "succeeds env AaptPackage \<and> succeeds env Apksigner")
  case True
  let ?st9 = "snd (run_tool env Apksigner
             ((snd (run_tool env AaptPackage st))
                \<lparr>archive := archive (snd (run_tool env AaptPackage st))
                    @ archive_entries env app (dex_dir (snd (run_tool env AaptPackage st)))\<rparr>))"
  have "extends UNIV ?st9 (snd (deploy_block env pk act run ?st9))"
    by (rule deploy_block_extends [OF extends_refl]) simp
  then obtain new where
    "calls (snd (deploy_block env pk act run ?st9)) = calls ?st9 @ new"
    by (auto simp: extends_def)
  then have "calls (snd (deploy_block env pk act run ?st9)) =
               calls st @ (AaptPackage # Apksigner # new)"
    by simp
  with True show ?thesis
    by (simp add: archive_block_def Let_def case_prod_beta)
next
  case False
  then show ?thesis
    by (auto simp: archive_block_def Let_def case_prod_beta)
qed

lemma pipeline_packages_without_class_files:
  assumes "class_files env = []"
      and "key_exists env \<or> succeeds env Keytool"
      and "succeeds env AaptResources"
      and "\<forall>(src, up) \<in> set (java_src_files env). up \<or> succeeds env (Javac src)"
  shows "\<exists>new. calls (snd (android_compile_java_native env app_type app pack label act
                                run tmpl st0)) = calls st0 @ new \<and> AaptPackage \<in> set new"
proof -
  let ?pk = "sanitize_android_package pack DEFAULT_PACKAGE"
  from pipeline_reaches_java_extends [OF assms(2), of app_type app pack label act run tmpl st0]
  obtain st2 where
    e: "android_compile_java_native env app_type app pack label act run tmpl st0 =
          java_block env app ?pk act run st2"
    and x: "extends UNIV st0 st2"
    by blast
  let ?st4 = "snd (compile_java env (java_src_files env) (snd (run_tool env AaptResources st2)))"
  let ?st5 = "?st4\<lparr>dex_dir := filter (\<lambda>f. \<not> removable env f) (dex_dir ?st4)\<rparr>"
  have "extends UNIV st0 ?st5"
    by (intro extends_intros x) simp_all
  then obtain n1 where n1: "calls ?st5 = calls st0 @ n1"
    by (auto simp: extends_def)
  from archive_block_called_new [of env app ?pk act run ?st5]
  obtain n2 where n2: "calls (snd (archive_block env app ?pk act run ?st5)) = calls ?st5 @ n2"
    and m: "AaptPackage \<in> set n2"
    by blast
  have "android_compile_java_native env app_type app pack label act run tmpl st0 =
          archive_block env app ?pk act run ?st5"
    by (simp add: e java_block_reaches_dex [OF assms(3) assms(4)] dex_block_skip [OF assms(1)])
  with n1 n2 m have
    "calls (snd (android_compile_java_native env app_type app pack label act run tmpl st0)) =
       calls st0 @ (n1 @ n2) \<and> AaptPackage \<in> set (n1 @ n2)"
    by simp
  then show ?thesis by blast
qed




text \<open>
  C9 (as amended).  When no class file is found, the translation block does nothing and
  reports success.  A run then invokes neither \<open>d8\<close> nor \<open>dx\<close>; if the steps
  before translation succeed it goes on to \<open>aapt package\<close>, its result depends
  only on the packaging, signing and start tools, and the entries it appends to
  the archive are the native libraries, the assets and those stale dex files
  that could not be deleted (none when every deletion succeeds).
\<close>

theorem no_class_files_skips_translation:
  assumes "class_files env = []"
      and "android_compile_java_native env app_type app pack lbl act run tmpl st0 = (ok, st')"
  shows "translate_bytecode env st = (True, st) \<and>
     (\<exists>new. calls st' = calls st0 @ new \<and> D8 \<notin> set new \<and> Dx \<notin> set new \<and>
        ((key_exists env \<or> succeeds env Keytool) \<and> succeeds env AaptResources \<and>
         (\<forall>(src, up) \<in> set (java_src_files env). up \<or> succeeds env (Javac src))
           \<longrightarrow> AaptPackage \<in> set new)) \<and>
     ((key_exists env \<or> succeeds env Keytool) \<and> succeeds env AaptResources \<and>
      (\<forall>(src, up) \<in> set (java_src_files env). up \<or> succeeds env (Javac src)) \<longrightarrow>
        ok = (succeeds env AaptPackage \<and> succeeds env Apksigner \<and>
              (run \<longrightarrow> succeeds env
                 (AdbStart (sanitize_android_package pack DEFAULT_PACKAGE @ ''/'' @ act)))) \<and>
        (succeeds env AaptPackage \<longrightarrow>
           archive st' = archive st0
              @ archive_entries env app (filter (\<lambda>f. \<not> removable env f) (dex_dir st0)) \<and>
           ((\<forall>f \<in> set (dex_dir st0). removable env f) \<longrightarrow>
              archive st' = archive st0 @ archive_entries env app [])))"
proof -
  let ?r = "android_compile_java_native env app_type app pack lbl act run tmpl st0"
  from assms(2) have ok: "fst ?r = ok" and st': "snd ?r = st'" by simp_all
  have a: "translate_bytecode env st = (True, st)"
    by (rule translate_bytecode_skip [OF assms(1)])
  from pipeline_extends [of env pack act st0 app_type app lbl run tmpl]
  obtain new where new: "calls st' = calls st0 @ new"
    and sub: "set new \<subseteq> pipeline_calls env (sanitize_android_package pack DEFAULT_PACKAGE) act"
    by (auto simp: extends_def st')
  from sub assms(1) have d: "D8 \<notin> set new" "Dx \<notin> set new"
    by (auto simp: pipeline_calls_def)
  have b: "(key_exists env \<or> succeeds env Keytool) \<and> succeeds env AaptResources \<and>
         (\<forall>(src, up) \<in> set (java_src_files env). up \<or> succeeds env (Javac src))
           \<longrightarrow> AaptPackage \<in> set new"
  proof
    assume h: "(key_exists env \<or> succeeds env Keytool) \<and> succeeds env AaptResources \<and>
         (\<forall>(src, up) \<in> set (java_src_files env). up \<or> succeeds env (Javac src))"
    from pipeline_packages_without_class_files [OF assms(1), of app_type app pack lbl act run tmpl st0] h
    obtain n where "calls st' = calls st0 @ n" "AaptPackage \<in> set n"
      by (auto simp: st')
    with new show "AaptPackage \<in> set new" by simp
  qed
  have c: "(key_exists env \<or> succeeds env Keytool) \<and> succeeds env AaptResources \<and>
      (\<forall>(src, up) \<in> set (java_src_files env). up \<or> succeeds env (Javac src)) \<longrightarrow>
        ok = (succeeds env AaptPackage \<and> succeeds env Apksigner \<and>
              (run \<longrightarrow> succeeds env
                 (AdbStart (sanitize_android_package pack DEFAULT_PACKAGE @ ''/'' @ act)))) \<and>
        (succeeds env AaptPackage \<longrightarrow>
           archive st' = archive st0
              @ archive_entries env app (filter (\<lambda>f. \<not> removable env f) (dex_dir st0)) \<and>
           ((\<forall>f \<in> set (dex_dir st0). removable env f) \<longrightarrow>
              archive st' = archive st0 @ archive_entries env app []))"
  proof (intro impI conjI)
    assume h: "(key_exists env \<or> succeeds env Keytool) \<and> succeeds env AaptResources \<and>
         (\<forall>(src, up) \<in> set (java_src_files env). up \<or> succeeds env (Javac src))"
    then have h1: "key_exists env \<or> succeeds env Keytool" and h2: "succeeds env AaptResources"
      and h3: "\<forall>(src, up) \<in> set (java_src_files env). up \<or> succeeds env (Javac src)"
      by blast+
    note p = pipeline_no_class_files [OF assms(1) h1 h2 h3, of app_type app pack lbl act run tmpl st0]
    from p(3) ok show "ok = (succeeds env AaptPackage \<and> succeeds env Apksigner \<and>
              (run \<longrightarrow> succeeds env
                 (AdbStart (sanitize_android_package pack DEFAULT_PACKAGE @ ''/'' @ act))))"
      by simp
    assume s: "succeeds env AaptPackage"
    from p(2) [OF s] st' show e: "archive st' = archive st0
              @ archive_entries env app (filter (\<lambda>f. \<not> removable env f) (dex_dir st0))"
      by simp
    assume "\<forall>f \<in> set (dex_dir st0). removable env f"
    then have "filter (\<lambda>f. \<not> removable env f) (dex_dir st0) = []"
      by (simp add: filter_empty_conv)
    with e show "archive st' = archive st0 @ archive_entries env app []" by simp
  qed
  from a new d b c show ?thesis by blast
qed

theorem no_class_files_skips_translation_witness:
  "class_files (example_pipeline_env None) = [] \<and>
   android_compile_java_native (example_pipeline_env None) 1 ''game'' ''com.a.b'' ''Game''
       ''com.a.b.Main'' False ''x'' (example_state None) =
     (True, \<lparr>manifest = None, dex_dir = [],
             calls = [AaptResources, AaptPackage, Apksigner,
                      AdbForceStop ''com.a.b/.com.a.b.Main'', AdbInstall],
             archive = [''lib/armeabi-v7a/libgame.so'', ''lib/arm64-v8a/libgame.so'',
                        ''assets/assets/logo.png'']\<rparr>)"
proof -
  have h1: "class_files (example_pipeline_env None) = []"
    by (simp add: example_pipeline_env_def)
  have h2: "android_compile_java_native (example_pipeline_env None) 1 ''game'' ''com.a.b'' ''Game''
       ''com.a.b.Main'' False ''x'' (example_state None) =
     (True, \<lparr>manifest = None, dex_dir = [],
             calls = [AaptResources, AaptPackage, Apksigner,
                      AdbForceStop ''com.a.b/.com.a.b.Main'', AdbInstall],
             archive = [''lib/armeabi-v7a/libgame.so'', ''lib/arm64-v8a/libgame.so'',
                        ''assets/assets/logo.png'']\<rparr>)"
    by code_simp
  from no_class_files_skips_translation [OF h1 h2] h1 h2 show ?thesis by blast
qed

text \<open>
  C9 as stated fails: when the stale \<open>classes.dex\<close> of an earlier build cannot
  be deleted, a run without class files succeeds and packs that dex file into
  the archive.
\<close>

theorem stale_dex_packed_without_class_files:
  "class_files example_stale_env = [] \<and>
   android_compile_java_native example_stale_env 1 ''game'' ''com.a.b'' ''Game''
       ''com.a.b.Main'' False ''x'' (example_state None) =
     (True, \<lparr>manifest = None, dex_dir = [''classes.dex''],
             calls = [AaptResources, AaptPackage, Apksigner,
                      AdbForceStop ''com.a.b/.com.a.b.Main'', AdbInstall],
             archive = [''lib/armeabi-v7a/libgame.so'', ''lib/arm64-v8a/libgame.so'',
                        ''assets/assets/logo.png'', ''classes.dex'']\<rparr>)"
  by code_simp

text \<open>
  C10.  Sanitising returns the fallback or a name of at least two dot-separated
  segments, each a non-empty word of letters, digits and underscores that does
  not start with a digit.  The pipeline sanitises the package name it is given,
  with the fallback \<open>com.djokersoft.game\<close>, which has this shape itself, and
  uses the result for the manifest, for stopping, uninstalling and starting the
  application.
\<close>

theorem sanitized_package_shape:
  "(sanitize_android_package_name s fb = fb \<or>
      well_formed_package (sanitize_android_package_name s fb)) \<and>
   (sanitize_android_package s fb = fb \<or> well_formed_package (sanitize_android_package s fb)) \<and>
   well_formed_package DEFAULT_PACKAGE \<and>
   well_formed_package (sanitize_android_package pack DEFAULT_PACKAGE) \<and>
   manifest (snd (android_compile_java_native env app_type app pack lbl act run tmpl st0)) =
     manifest_step app_type app (sanitize_android_package pack DEFAULT_PACKAGE)
       (if lbl = [] \<or> strip lbl = [] then app else lbl) act tmpl (res_root env) (manifest st0) \<and>
   (\<exists>new. calls (snd (android_compile_java_native env app_type app pack lbl act run tmpl st0)) =
            calls st0 @ new \<and>
      (\<forall>c \<in> set new.
         (\<forall>p. c = AdbUninstall p \<longrightarrow> p = sanitize_android_package pack DEFAULT_PACKAGE) \<and>
         (\<forall>x. c = AdbStart x \<longrightarrow>
              x = sanitize_android_package pack DEFAULT_PACKAGE @ ''/'' @ act) \<and>
         (\<forall>x. c = AdbForceStop x \<longrightarrow>
              x = sanitize_android_package pack DEFAULT_PACKAGE @ ''/.'' @ act)))"
proof -
  from pipeline_extends [of env pack act st0 app_type app lbl run tmpl]
  obtain new where
    n: "calls (snd (android_compile_java_native env app_type app pack lbl act run tmpl st0)) =
          calls st0 @ new"
    and sub: "set new \<subseteq> pipeline_calls env (sanitize_android_package pack DEFAULT_PACKAGE) act"
    by (auto simp: extends_def)
  have "\<forall>c \<in> set new.
         (\<forall>p. c = AdbUninstall p \<longrightarrow> p = sanitize_android_package pack DEFAULT_PACKAGE) \<and>
         (\<forall>x. c = AdbStart x \<longrightarrow>
              x = sanitize_android_package pack DEFAULT_PACKAGE @ ''/'' @ act) \<and>
         (\<forall>x. c = AdbForceStop x \<longrightarrow>
              x = sanitize_android_package pack DEFAULT_PACKAGE @ ''/.'' @ act)"
    using sub by (auto simp: pipeline_calls_def split: if_splits)
  with n sanitize_name_shape [of s fb] sanitize_shape [of s fb] default_package_well_formed
       sanitize_default_well_formed [of pack]
       pipeline_manifest [of env app_type app pack lbl act run tmpl st0]
  show ?thesis by blast
qed

theorem sanitized_package_shape_witness:
  "sanitize_android_package_name '' com/my app.9lives..x-y. '' DEFAULT_PACKAGE =
     ''com.myapp.p9lives.xy'' \<and>
   well_formed_package ''com.myapp.p9lives.xy'' \<and>
   sanitize_android_package ''game'' DEFAULT_PACKAGE = DEFAULT_PACKAGE \<and>
   calls (snd (android_compile_java_native (example_pipeline_env None) 1 ''game'' ''game'' ''Game''
       ''Main'' True ''x'' (example_state None))) =
     [AaptResources, AaptPackage, Apksigner, AdbForceStop ''com.djokersoft.game/.Main'',
      AdbInstall, AdbStart ''com.djokersoft.game/Main'']"
proof -
  have a: "sanitize_android_package_name '' com/my app.9lives..x-y. '' DEFAULT_PACKAGE =
     ''com.myapp.p9lives.xy''"
    by code_simp
  have b: "''com.myapp.p9lives.xy'' \<noteq> DEFAULT_PACKAGE"
    by code_simp
  have c: "sanitize_android_package ''game'' DEFAULT_PACKAGE = DEFAULT_PACKAGE"
    by code_simp
  have d: "calls (snd (android_compile_java_native (example_pipeline_env None) 1 ''game'' ''game''
       ''Game'' ''Main'' True ''x'' (example_state None))) =
     [AaptResources, AaptPackage, Apksigner, AdbForceStop ''com.djokersoft.game/.Main'',
      AdbInstall, AdbStart ''com.djokersoft.game/Main'']"
    by code_simp
  from sanitized_package_shape [of "'' com/my app.9lives..x-y. ''" DEFAULT_PACKAGE "''game''"
         "example_pipeline_env None" 1 "''game''" "''Game''" "''Main''" True "''x''"
         "example_state None"]
       a b c d
  show ?thesis by simp
qed

section \<open>Properties of the dependency resolver\<close>

lemma dep_edgesI:
  "fmlookup reg n = Some m \<Longrightarrow> dep \<in> set (depends m) \<Longrightarrow> strip dep \<noteq> [] \<Longrightarrow>
     strip dep \<noteq> n \<Longrightarrow> strip dep \<in> fmdom' reg \<Longrightarrow> (n, strip dep) \<in> dep_edges reg"
  by (auto simp: dep_edges_def)

lemma dep_edgesE:
  assumes "(n, d) \<in> dep_edges reg"
  obtains m dep where "fmlookup reg n = Some m" "dep \<in> set (depends m)" "d = strip dep"
    "d \<noteq> []" "d \<noteq> n" "d \<in> fmdom' reg"
  using assms by (auto simp: dep_edges_def)

lemma dep_edges_dom: "(n, d) \<in> dep_edges reg \<Longrightarrow> n \<in> fmdom' reg \<and> d \<in> fmdom' reg"
  by (auto simp: dep_edges_def intro: fmdom'I)

lemma reachable_self: "n \<in> fmdom' reg \<Longrightarrow> n \<in> reachable_modules reg n"
  by (simp add: reachable_modules_def)

lemma reachable_step:
  "(n, d) \<in> dep_edges reg \<Longrightarrow> reachable_modules reg d \<subseteq> reachable_modules reg n"
  using dep_edges_dom [of n d reg]
  by (auto simp: reachable_modules_def intro: converse_rtrancl_into_rtrancl)

lemma reachable_unregistered: "n \<notin> fmdom' reg \<Longrightarrow> reachable_modules reg n = {}"
  by (simp add: reachable_modules_def)

lemma ordered_after_snoc:
  assumes "ordered_after reg ord"
      and "\<And>d. (n, d) \<in> dep_edges reg \<Longrightarrow> d \<in> set ord \<or> (d, n) \<in> (dep_edges reg)\<^sup>+"
  shows "ordered_after reg (ord @ [n])"
  unfolding ordered_after_def
proof (intro allI impI)
  fix i d
  assume i: "i < length (ord @ [n])" and e: "((ord @ [n]) ! i, d) \<in> dep_edges reg"
  show "d \<in> set (take i (ord @ [n])) \<or> (d, (ord @ [n]) ! i) \<in> (dep_edges reg)\<^sup>+"
  proof (cases "i < length ord")
    case True
    with e have "(ord ! i, d) \<in> dep_edges reg" by (simp add: nth_append)
    with assms(1) True have "d \<in> set (take i ord) \<or> (d, ord ! i) \<in> (dep_edges reg)\<^sup>+"
      by (simp add: ordered_after_def)
    with True show ?thesis by (simp add: nth_append)
  next
    case False
    with i have "i = length ord" by simp
    with e assms(2) [of d] show ?thesis by simp
  qed
qed

lemma dfs_inv_push:
  "dfs_inv reg st \<Longrightarrow> nm \<notin> visited st \<Longrightarrow> dfs_inv reg (st\<lparr>stack := insert nm (stack st)\<rparr>)"
  by (auto simp: dfs_inv_def) blast

lemma dfs_inv_finish:
  assumes inv: "dfs_inv reg st1"
      and st: "stack st1 = insert nm (stack st)" "nm \<notin> stack st"
      and dom: "nm \<in> fmdom' reg"
      and succ: "\<And>d. (nm, d) \<in> dep_edges reg \<Longrightarrow> d \<in> visited st1 \<union> stack st"
      and reach: "\<forall>s \<in> stack st. (s, nm) \<in> (dep_edges reg)\<^sup>*"
  shows "dfs_inv reg (st1\<lparr>stack := stack st1 - {nm}, visited := insert nm (visited st1),
                          order := order st1 @ [nm]\<rparr>)"
proof -
  from inv st have nv: "nm \<notin> visited st1" by (auto simp: dfs_inv_def)
  have oa: "ordered_after reg (order st1 @ [nm])"
  proof (rule ordered_after_snoc)
    from inv show "ordered_after reg (order st1)" by (simp add: dfs_inv_def)
  next
    fix d assume e: "(nm, d) \<in> dep_edges reg"
    then have "d \<noteq> nm" by (auto elim: dep_edgesE)
    from succ [OF e] show "d \<in> set (order st1) \<or> (d, nm) \<in> (dep_edges reg)\<^sup>+"
    proof
      assume "d \<in> visited st1"
      with inv show ?thesis by (simp add: dfs_inv_def)
    next
      assume "d \<in> stack st"
      with reach have "(d, nm) \<in> (dep_edges reg)\<^sup>*" by blast
      with \<open>d \<noteq> nm\<close> show ?thesis by (auto dest: rtranclD)
    qed
  qed
  from inv st nv dom succ oa show ?thesis
    unfolding dfs_inv_def by (simp (no_asm_simp)) blast
qed


lemma visit_post_refl: "dfs_inv reg st \<Longrightarrow> visit_post reg nm st st"
  by (simp add: visit_post_def)

lemma visit_post_visited_mono:
  "dfs_inv reg st \<Longrightarrow> visit_post reg nm st st' \<Longrightarrow> visited st \<subseteq> visited st'"
  by (auto simp: visit_post_def dfs_inv_def)

lemma card_Diff_insert_Suc:
  "finite A \<Longrightarrow> x \<in> A \<Longrightarrow> x \<notin> S \<Longrightarrow> Suc (card (A - insert x S)) = card (A - S)"
proof -
  assume f: "finite A" and x: "x \<in> A" "x \<notin> S"
  have "A - S = insert x (A - insert x S)" using x by auto
  moreover have "x \<notin> A - insert x S" by simp
  ultimately show ?thesis using f by (metis card_insert_disjoint finite_Diff)
qed

text \<open>
  A call of \<open>visit\<close> (or of its loop) either returns a state that satisfies
  \<open>visit_post\<close>, or raises \<open>RecursionError\<close>, and the latter only when the
  frames left do not exceed the number of registered modules off the stack plus
  the frames a warning needs.  \<open>KeyError\<close> is never raised.
\<close>

lemma visit_correct:
  "dfs_inv reg st \<Longrightarrow>
   (nm \<in> fmdom' reg \<Longrightarrow> \<forall>s \<in> stack st. (s, nm) \<in> (dep_edges reg)\<^sup>*) \<Longrightarrow>
     (\<exists>st'. visit reg tf frames nm st = Inr st' \<and> visit_post reg nm st st' \<and>
           (nm \<in> fmdom' reg \<longrightarrow> nm \<in> visited st' \<union> stack st)) \<or>
     (visit reg tf frames nm st = Inl RecursionError \<and>
      frames \<le> card (fmdom' reg - stack st) + tf)"
  "dfs_inv reg st \<Longrightarrow> nm \<in> stack st \<Longrightarrow>
   \<forall>s \<in> stack st. (s, nm) \<in> (dep_edges reg)\<^sup>* \<Longrightarrow>
   \<exists>m. fmlookup reg nm = Some m \<and> set deps \<subseteq> set (depends m) \<Longrightarrow>
     (\<exists>st'. visit_deps reg tf frames nm deps st = Inr st' \<and> visit_post reg nm st st' \<and>
           (\<forall>dep \<in> set deps. strip dep \<noteq> [] \<and> strip dep \<noteq> nm \<and> strip dep \<in> fmdom' reg \<longrightarrow>
                strip dep \<in> visited st' \<union> stack st)) \<or>
     (visit_deps reg tf frames nm deps st = Inl RecursionError \<and>
      frames \<le> card (fmdom' reg - stack st) + tf)"
proof (induction reg tf frames nm st and reg tf frames nm deps st rule: visit_visit_deps.induct)
  case (1 reg tf frames nm st)
  show ?case
  proof (cases "frames = 0")
    case True
    then have "visit reg tf frames nm st = Inl RecursionError"
      by (simp add: visit.simps [of reg tf frames nm st])
    with True show ?thesis by simp
  next
    case f0: False
    show ?thesis
    proof (cases "nm \<in> visited st")
      case True
      with f0 have "visit reg tf frames nm st = Inr st"
        by (simp add: visit.simps [of reg tf frames nm st])
      moreover have "visit_post reg nm st st"
        using "1.prems"(1) by (rule visit_post_refl)
      ultimately show ?thesis using True by blast
    next
      case nv: False
      show ?thesis
      proof (cases "nm \<in> stack st \<or> fmlookup reg nm = None")
        case True
        show ?thesis
        proof (cases "frames - 1 < tf")
          case t: True
          with f0 nv True have "visit reg tf frames nm st = Inl RecursionError"
            by (auto simp: visit.simps [of reg tf frames nm st])
          moreover from t have "frames \<le> card (fmdom' reg - stack st) + tf" by simp
          ultimately show ?thesis by blast
        next
          case t: False
          with f0 nv True have "visit reg tf frames nm st = Inr st"
            by (auto simp: visit.simps [of reg tf frames nm st])
          moreover have "visit_post reg nm st st"
            using "1.prems"(1) by (rule visit_post_refl)
          moreover have "nm \<in> fmdom' reg \<longrightarrow> nm \<in> visited st \<union> stack st"
            using True by (auto simp: fmlookup_dom'_iff)
          ultimately show ?thesis by blast
        qed
      next
        case False
        then obtain module where m: "fmlookup reg nm = Some module"
          and ns: "nm \<notin> stack st"
          by auto
        have dom: "nm \<in> fmdom' reg" using m by (rule fmdom'I)
        let ?st_in = "st\<lparr>stack := insert nm (stack st)\<rparr>"
        have c: "Suc (card (fmdom' reg - stack ?st_in)) = card (fmdom' reg - stack st)"
          using card_Diff_insert_Suc [of "fmdom' reg" nm "stack st"] dom ns by simp
        have "(\<exists>st'. visit_deps reg tf (frames - 1) nm (depends module) ?st_in = Inr st' \<and>
                visit_post reg nm ?st_in st' \<and>
                (\<forall>dep \<in> set (depends module).
                    strip dep \<noteq> [] \<and> strip dep \<noteq> nm \<and> strip dep \<in> fmdom' reg \<longrightarrow>
                    strip dep \<in> visited st' \<union> stack ?st_in)) \<or>
              (visit_deps reg tf (frames - 1) nm (depends module) ?st_in = Inl RecursionError \<and>
               frames - 1 \<le> card (fmdom' reg - stack ?st_in) + tf)"
        proof (rule "1.IH" [OF f0 nv ns m])
          show "dfs_inv reg ?st_in" using "1.prems"(1) nv by (rule dfs_inv_push)
          show "nm \<in> stack ?st_in" by simp
          show "\<forall>s \<in> stack ?st_in. (s, nm) \<in> (dep_edges reg)\<^sup>*"
            using "1.prems"(2) [OF dom] by auto
          show "\<exists>m. fmlookup reg nm = Some m \<and> set (depends module) \<subseteq> set (depends m)"
            using m by auto
        qed
        then show ?thesis
        proof
          assume "visit_deps reg tf (frames - 1) nm (depends module) ?st_in = Inl RecursionError \<and>
               frames - 1 \<le> card (fmdom' reg - stack ?st_in) + tf"
          then have e: "visit_deps reg tf (frames - 1) nm (depends module) ?st_in
                          = Inl RecursionError"
            and b: "frames - 1 \<le> card (fmdom' reg - stack ?st_in) + tf"
            by simp_all
          from e f0 nv ns m have "visit reg tf frames nm st = Inl RecursionError"
            by (simp add: visit.simps [of reg tf frames nm st])
          moreover from b c f0 have "frames \<le> card (fmdom' reg - stack st) + tf" by linarith
          ultimately show ?thesis by blast
        next
          assume "\<exists>st'. visit_deps reg tf (frames - 1) nm (depends module) ?st_in = Inr st' \<and>
                visit_post reg nm ?st_in st' \<and>
                (\<forall>dep \<in> set (depends module).
                    strip dep \<noteq> [] \<and> strip dep \<noteq> nm \<and> strip dep \<in> fmdom' reg \<longrightarrow>
                    strip dep \<in> visited st' \<union> stack ?st_in)"
          then obtain st1 where
            v: "visit_deps reg tf (frames - 1) nm (depends module) ?st_in = Inr st1"
            and p: "visit_post reg nm ?st_in st1"
            and s: "\<forall>dep \<in> set (depends module).
                      strip dep \<noteq> [] \<and> strip dep \<noteq> nm \<and> strip dep \<in> fmdom' reg \<longrightarrow>
                      strip dep \<in> visited st1 \<union> stack ?st_in"
            by blast
          from p have st1: "stack st1 = insert nm (stack st)" and inv1: "dfs_inv reg st1"
            by (simp_all add: visit_post_def)
          from p obtain new where new: "order st1 = order st @ new"
            "set new \<subseteq> reachable_modules reg nm"
            by (auto simp: visit_post_def)
          let ?st' = "st1\<lparr>stack := stack st1 - {nm}, visited := insert nm (visited st1),
                           order := order st1 @ [nm]\<rparr>"
          have r: "visit reg tf frames nm st = Inr ?st'"
            using f0 nv ns m v st1 by (simp add: visit.simps [of reg tf frames nm st])
          have succ: "d \<in> visited st1 \<union> stack st" if e: "(nm, d) \<in> dep_edges reg" for d
          proof -
            from e m obtain dep where "dep \<in> set (depends module)" "d = strip dep" "d \<noteq> []"
              "d \<noteq> nm" "d \<in> fmdom' reg"
              by (auto elim!: dep_edgesE)
            with s show ?thesis by auto
          qed
          have inv': "dfs_inv reg ?st'"
            using inv1 st1 ns dom succ "1.prems"(2) [OF dom] by (rule dfs_inv_finish)
          have "stack ?st' = stack st" using st1 ns by auto
          moreover have "order ?st' = order st @ (new @ [nm])" using new by simp
          moreover have "set (new @ [nm]) \<subseteq> reachable_modules reg nm"
            using new(2) reachable_self [OF dom] by simp
          ultimately have "visit_post reg nm st ?st'"
            using inv' unfolding visit_post_def by blast
          moreover have "nm \<in> visited ?st'" by simp
          ultimately show ?thesis using r by blast
        qed
      qed
    qed
  qed
next
  case (2 reg tf frames nm st)
  then show ?case by (simp add: visit_post_refl)
next
  case (3 reg tf frames nm dep deps st)
  from "3.prems"(4) obtain m where m: "fmlookup reg nm = Some m"
    and sub: "set (dep # deps) \<subseteq> set (depends m)"
    by blast
  then have m': "\<exists>m. fmlookup reg nm = Some m \<and> set deps \<subseteq> set (depends m)" by auto
  show ?case
  proof (cases "strip dep = [] \<or> strip dep = nm")
    case True
    from "3.IH"(1) [OF refl True "3.prems"(1) "3.prems"(2) "3.prems"(3) m'] True
    show ?thesis by (auto simp: Let_def simp del: visit.simps)
  next
    case False
    have e: "(nm, strip dep) \<in> dep_edges reg" if "strip dep \<in> fmdom' reg"
      using m sub False that by (auto intro: dep_edgesI)
    have "strip dep \<in> fmdom' reg \<Longrightarrow> \<forall>s \<in> stack st. (s, strip dep) \<in> (dep_edges reg)\<^sup>*"
      using e "3.prems"(3) by (auto intro: rtrancl_into_rtrancl)
    from "3.IH"(2) [OF refl False "3.prems"(1) this]
    show ?thesis
    proof
      assume "visit reg tf frames (strip dep) st = Inl RecursionError \<and>
              frames \<le> card (fmdom' reg - stack st) + tf"
      with False show ?thesis by (simp add: Let_def del: visit.simps)
    next
      assume "\<exists>st'. visit reg tf frames (strip dep) st = Inr st' \<and>
                visit_post reg (strip dep) st st' \<and>
                (strip dep \<in> fmdom' reg \<longrightarrow> strip dep \<in> visited st' \<union> stack st)"
      then obtain st1 where v: "visit reg tf frames (strip dep) st = Inr st1"
        and p1: "visit_post reg (strip dep) st st1"
        and d1: "strip dep \<in> fmdom' reg \<longrightarrow> strip dep \<in> visited st1 \<union> stack st"
        by blast
      from p1 have s1: "stack st1 = stack st" and inv1: "dfs_inv reg st1"
        by (simp_all add: visit_post_def)
      from p1 obtain new1 where n1: "order st1 = order st @ new1"
        "set new1 \<subseteq> reachable_modules reg (strip dep)"
        by (auto simp: visit_post_def)
      have r1: "set new1 \<subseteq> reachable_modules reg nm"
      proof (cases "strip dep \<in> fmdom' reg")
        case True
        from reachable_step [OF e [OF True]] n1(2) show ?thesis by blast
      next
        case False
        with n1(2) show ?thesis by (simp add: reachable_unregistered)
      qed
      have "(\<exists>st'. visit_deps reg tf frames nm deps st1 = Inr st' \<and> visit_post reg nm st1 st' \<and>
             (\<forall>dep \<in> set deps. strip dep \<noteq> [] \<and> strip dep \<noteq> nm \<and> strip dep \<in> fmdom' reg \<longrightarrow>
                  strip dep \<in> visited st' \<union> stack st1)) \<or>
            (visit_deps reg tf frames nm deps st1 = Inl RecursionError \<and>
             frames \<le> card (fmdom' reg - stack st1) + tf)"
        using "3.prems"(2) "3.prems"(3) s1
        by (intro "3.IH"(3) [OF refl False v inv1 _ _ m']) simp_all
      then show ?thesis
      proof
        assume "visit_deps reg tf frames nm deps st1 = Inl RecursionError \<and>
             frames \<le> card (fmdom' reg - stack st1) + tf"
        with False v s1 show ?thesis by (simp add: Let_def del: visit.simps)
      next
        assume "\<exists>st'. visit_deps reg tf frames nm deps st1 = Inr st' \<and> visit_post reg nm st1 st' \<and>
             (\<forall>dep \<in> set deps. strip dep \<noteq> [] \<and> strip dep \<noteq> nm \<and> strip dep \<in> fmdom' reg \<longrightarrow>
                  strip dep \<in> visited st' \<union> stack st1)"
        then obtain st' where v2: "visit_deps reg tf frames nm deps st1 = Inr st'"
          and p2: "visit_post reg nm st1 st'"
          and d2: "\<forall>dep \<in> set deps.
                     strip dep \<noteq> [] \<and> strip dep \<noteq> nm \<and> strip dep \<in> fmdom' reg \<longrightarrow>
                     strip dep \<in> visited st' \<union> stack st1"
          by blast
        from p2 obtain new2 where n2: "order st' = order st1 @ new2"
          "set new2 \<subseteq> reachable_modules reg nm"
          by (auto simp: visit_post_def)
        have r: "visit_deps reg tf frames nm (dep # deps) st = Inr st'"
          using False v v2 by (simp add: Let_def del: visit.simps)
        have "order st' = order st @ (new1 @ new2)" using n1 n2 by simp
        moreover have "set (new1 @ new2) \<subseteq> reachable_modules reg nm" using r1 n2(2) by simp
        moreover from p2 s1 have "stack st' = stack st" "dfs_inv reg st'"
          by (simp_all add: visit_post_def)
        ultimately have post: "visit_post reg nm st st'"
          unfolding visit_post_def by blast
        have mono: "visited st1 \<subseteq> visited st'"
          using inv1 p2 by (rule visit_post_visited_mono)
        have "\<forall>dep' \<in> set (dep # deps).
                strip dep' \<noteq> [] \<and> strip dep' \<noteq> nm \<and> strip dep' \<in> fmdom' reg \<longrightarrow>
                strip dep' \<in> visited st' \<union> stack st"
          using d1 d2 mono s1 by auto
        with r post show ?thesis by blast
      qed
    qed
  qed
qed


lemma add_new_items_set:
  "distinct ordered \<Longrightarrow>
     distinct (add_new_items ordered items) \<and>
     set (add_new_items ordered items) = set ordered \<union> set items"
  by (induction items arbitrary: ordered) auto


lemma dfs_inv_initial: "dfs_inv reg \<lparr>order = [], visited = {}, stack = {}\<rparr>"
  by (simp add: dfs_inv_def ordered_after_def)

lemma topological_modules_result:
  "(\<exists>ord. topological_modules tf frames start reg = Inr ord \<and> distinct ord \<and>
          set ord = reachable_modules reg start \<and> ordered_after reg ord) \<or>
   (topological_modules tf frames start reg = Inl RecursionError \<and>
    frames \<le> card (fmdom' reg) + tf)"
proof -
  let ?st0 = "\<lparr>order = [], visited = {}, stack = {}\<rparr>"
  from visit_correct(1) [of reg ?st0 start tf frames, OF dfs_inv_initial]
  have "(\<exists>st'. visit reg tf frames start ?st0 = Inr st' \<and> visit_post reg start ?st0 st' \<and>
           (start \<in> fmdom' reg \<longrightarrow> start \<in> visited st' \<union> stack ?st0)) \<or>
     (visit reg tf frames start ?st0 = Inl RecursionError \<and>
      frames \<le> card (fmdom' reg - stack ?st0) + tf)"
    by simp
  then show ?thesis
  proof
    assume "visit reg tf frames start ?st0 = Inl RecursionError \<and>
      frames \<le> card (fmdom' reg - stack ?st0) + tf"
    then show ?thesis by (simp add: topological_modules_def)
  next
    assume "\<exists>st'. visit reg tf frames start ?st0 = Inr st' \<and> visit_post reg start ?st0 st' \<and>
           (start \<in> fmdom' reg \<longrightarrow> start \<in> visited st' \<union> stack ?st0)"
    then obtain st' where v: "visit reg tf frames start ?st0 = Inr st'"
      and p: "visit_post reg start ?st0 st'"
      and s: "start \<in> fmdom' reg \<longrightarrow> start \<in> visited st' \<union> stack ?st0"
      by blast
    from p have st: "stack st' = {}" and inv: "dfs_inv reg st'"
      and sub: "set (order st') \<subseteq> reachable_modules reg start"
      by (auto simp: visit_post_def)
    from inv have vis: "visited st' = set (order st')" by (simp add: dfs_inv_def)
    have closed: "d \<in> visited st'" if "v \<in> visited st'" "(v, d) \<in> dep_edges reg" for v d
      using inv st that unfolding dfs_inv_def by blast
    have "reachable_modules reg start \<subseteq> visited st'"
    proof (cases "start \<in> fmdom' reg")
      case True
      with s have s': "start \<in> visited st'" by simp
      have "x \<in> visited st'" if "(start, x) \<in> (dep_edges reg)\<^sup>*" for x
        using that by (induction rule: rtrancl_induct) (auto intro: s' closed)
      with True show ?thesis by (auto simp: reachable_modules_def)
    next
      case False
      then show ?thesis by (simp add: reachable_unregistered)
    qed
    with sub vis have "set (order st') = reachable_modules reg start" by auto
    moreover from inv have "distinct (order st')" "ordered_after reg (order st')"
      by (simp_all add: dfs_inv_def)
    moreover from v have "topological_modules tf frames start reg = Inr (order st')"
      by (simp add: topological_modules_def)
    ultimately show ?thesis by blast
  qed
qed

lemma topological_modules_returned:
  assumes "topological_modules tf frames start reg = Inr ord"
  shows "distinct ord \<and> set ord = reachable_modules reg start \<and> ordered_after reg ord"
  using topological_modules_result [of tf frames start reg] assms by auto

lemma topological_modules_returns:
  assumes "card (fmdom' reg) + tf < frames"
  shows "\<exists>ord. topological_modules tf frames start reg = Inr ord"
  using topological_modules_result [of tf frames start reg] assms by auto


lemma closure_loop_result:
  "distinct ordered \<Longrightarrow>
     (\<exists>ord. closure_loop tf frames names reg ordered = Inr ord \<and> distinct ord \<and>
           set ord = set ordered \<union> (\<Union>n \<in> set names. reachable_modules reg n)) \<or>
     (closure_loop tf frames names reg ordered = Inl RecursionError \<and>
      frames \<le> card (fmdom' reg) + tf)"
proof (induction names arbitrary: ordered)
  case Nil
  then show ?case by simp
next
  case (Cons n names)
  from topological_modules_result [of tf frames n reg]
  show ?case
  proof
    assume "topological_modules tf frames n reg = Inl RecursionError \<and>
            frames \<le> card (fmdom' reg) + tf"
    then show ?thesis by simp
  next
    assume "\<exists>ord. topological_modules tf frames n reg = Inr ord \<and> distinct ord \<and>
          set ord = reachable_modules reg n \<and> ordered_after reg ord"
    then obtain items where i: "topological_modules tf frames n reg = Inr items"
      "set items = reachable_modules reg n"
      by blast
    from add_new_items_set [OF Cons.prems, of items]
    have d: "distinct (add_new_items ordered items)"
      and s: "set (add_new_items ordered items) = set ordered \<union> set items"
      by simp_all
    from Cons.IH [OF d] i s show ?thesis by auto
  qed
qed

lemma ordered_after_acyclic:
  assumes "ordered_after reg ord" and "\<forall>x. (x, x) \<notin> (dep_edges reg)\<^sup>+"
      and "i < length ord" and "(ord ! i, d) \<in> dep_edges reg"
  shows "d \<in> set (take i ord)"
proof -
  from assms(1,3,4) have "d \<in> set (take i ord) \<or> (d, ord ! i) \<in> (dep_edges reg)\<^sup>+"
    by (simp add: ordered_after_def)
  moreover have "(d, ord ! i) \<notin> (dep_edges reg)\<^sup>+"
  proof
    assume "(d, ord ! i) \<in> (dep_edges reg)\<^sup>+"
    from this assms(4) have "(d, d) \<in> (dep_edges reg)\<^sup>+" by (rule trancl_into_trancl)
    with assms(2) show False by blast
  qed
  ultimately show ?thesis by blast
qed

lemma example_cycle_order: "topological_modules 2 1000 ''A'' example_cycle = Inr [''B'', ''A'']"
  by code_simp

lemma example_registry_order:
  "topological_modules 2 1000 ''app'' example_registry = Inr [''glfw'', ''openal'', ''app'']"
  by code_simp

lemma chain_name_inj [simp]: "chain_name i = chain_name j \<longleftrightarrow> i = j"
proof
  assume "chain_name i = chain_name j"
  then have "length (chain_name i) = length (chain_name j)" by simp
  then show "i = j" by (simp add: chain_name_def)
qed simp

lemma strip_chain_name [simp]: "strip (chain_name i) = chain_name i"
proof -
  have a: "dropWhile is_space (chain_name i) = chain_name i"
    by (simp add: chain_name_def is_space_def)
  have "rev (chain_name i) = replicate i (CHR ''x'') @ ''m''"
    by (simp add: chain_name_def)
  then have "dropWhile is_space (rev (chain_name i)) = rev (chain_name i)"
    by (cases i) (simp_all add: is_space_def)
  with a show ?thesis by (simp add: strip_def)
qed

lemma chain_name_nonempty [simp]: "chain_name i \<noteq> []"
  by (simp add: chain_name_def)





lemma example_cycle_back_edge: "(''B'', ''A'') \<in> dep_edges example_cycle"
  using dep_edgesI [of example_cycle "''B''" "example_module ''B'' [''A''] []" "''A''"]
  by (simp add: example_cycle_def example_module_def fmlookup_of_list fmlookup_dom'_iff
                strip_def is_space_def)


lemma example_registry_edge: "(''app'', ''glfw'') \<in> dep_edges example_registry"
  using dep_edgesI [of example_registry "''app''"
          "example_module ''app'' [''glfw'', ''openal''] []" "''glfw''"]
  by (simp add: example_registry_def example_module_def fmlookup_of_list fmlookup_dom'_iff
                strip_def is_space_def)


lemma example_registry_dom: "fmdom' example_registry = {''app'', ''glfw'', ''openal''}"
  by (auto simp: example_registry_def fmlookup_dom'_iff fmlookup_of_list split: if_splits)


lemma closure_for_modules_result:
  "(\<exists>ord. closure_for_modules tf frames names reg = Inr ord \<and> distinct ord \<and>
           set ord = (\<Union>n \<in> set names. reachable_modules reg n)) \<or>
   (closure_for_modules tf frames names reg = Inl RecursionError \<and>
      frames \<le> card (fmdom' reg) + tf)"
  using closure_loop_result [of "[]" tf frames names reg]
  by (simp add: closure_for_modules_def)

text \<open>
  C1 (as amended).  An order returned by the resolver has no duplicates and
  consists of exactly the modules reachable from the start through resolvable
  \<open>depends\<close> edges (none when the start is not registered).  Every module of
  the order comes strictly after each of its resolvable dependencies, except a
  dependency from which the module is itself reachable; when the dependency
  graph has no cycle, every module comes strictly after all its resolvable
  dependencies.  The closure of several requested modules, when returned, has
  no duplicates and consists of the modules reachable from any of them.  Both
  functions return an order whenever the frames left exceed the number of
  registered modules plus the frames a warning needs.
\<close>

theorem topological_modules_order:
  "(topological_modules tf frames start reg = Inr ord \<longrightarrow>
      distinct ord \<and> set ord = reachable_modules reg start \<and>
      (\<forall>i < length ord. \<forall>d. (ord ! i, d) \<in> dep_edges reg \<longrightarrow>
          d \<in> set (take i ord) \<or> (d, ord ! i) \<in> (dep_edges reg)\<^sup>+) \<and>
      ((\<forall>x. (x, x) \<notin> (dep_edges reg)\<^sup>+) \<longrightarrow>
         (\<forall>i < length ord. \<forall>d. (ord ! i, d) \<in> dep_edges reg \<longrightarrow> d \<in> set (take i ord)))) \<and>
   (closure_for_modules tf frames names reg = Inr ords \<longrightarrow>
      distinct ords \<and> set ords = (\<Union>n \<in> set names. reachable_modules reg n)) \<and>
   (card (fmdom' reg) + tf < frames \<longrightarrow>
      (\<exists>ord. topological_modules tf frames start reg = Inr ord) \<and>
      (\<exists>ords. closure_for_modules tf frames names reg = Inr ords))"
proof (intro conjI impI)
  assume r: "topological_modules tf frames start reg = Inr ord"
  from topological_modules_returned [OF r]
  have d: "distinct ord" and s: "set ord = reachable_modules reg start"
    and oa: "ordered_after reg ord"
    by simp_all
  show "distinct ord" by (rule d)
  show "set ord = reachable_modules reg start" by (rule s)
  from oa show "\<forall>i < length ord. \<forall>d. (ord ! i, d) \<in> dep_edges reg \<longrightarrow>
          d \<in> set (take i ord) \<or> (d, ord ! i) \<in> (dep_edges reg)\<^sup>+"
    by (simp add: ordered_after_def)
  assume "\<forall>x. (x, x) \<notin> (dep_edges reg)\<^sup>+"
  with ordered_after_acyclic [OF oa]
  show "\<forall>i < length ord. \<forall>d. (ord ! i, d) \<in> dep_edges reg \<longrightarrow> d \<in> set (take i ord)"
    by blast
next
  assume c: "closure_for_modules tf frames names reg = Inr ords"
  with closure_for_modules_result [of tf frames names reg]
  show "distinct ords" "set ords = (\<Union>n \<in> set names. reachable_modules reg n)"
    by auto
next
  assume f: "card (fmdom' reg) + tf < frames"
  show "\<exists>ord. topological_modules tf frames start reg = Inr ord"
    by (rule topological_modules_returns [OF f])
  from closure_for_modules_result [of tf frames names reg] f
  show "\<exists>ords. closure_for_modules tf frames names reg = Inr ords"
    by auto
qed

theorem topological_modules_order_witness:
  "card (fmdom' example_registry) + 2 < 1000 \<and>
   (''app'', ''glfw'') \<in> dep_edges example_registry \<and>
   topological_modules 2 1000 ''app'' example_registry = Inr [''glfw'', ''openal'', ''app''] \<and>
   reachable_modules example_registry ''app'' = {''glfw'', ''openal'', ''app''} \<and>
   [''glfw'', ''openal'', ''app''] ! 2 = ''app'' \<and>
   ''glfw'' \<in> set (take 2 [''glfw'', ''openal'', ''app''])"
proof -
  note h = topological_modules_order [of 2 1000 "''app''" example_registry
             "[''glfw'', ''openal'', ''app'']" "[]" "[]", THEN conjunct1]
  from mp [OF h example_registry_order]
  have s: "set [''glfw'', ''openal'', ''app''] = reachable_modules example_registry ''app''"
    by (elim conjE)
  then have 1: "reachable_modules example_registry ''app'' = {''glfw'', ''openal'', ''app''}"
    by (simp only: list.set)
  have 0: "card (fmdom' example_registry) + 2 < 1000"
    by (simp add: example_registry_dom)
  have 2: "[''glfw'', ''openal'', ''app''] ! 2 = ''app''" by code_simp
  have 3: "''glfw'' \<in> set (take 2 [''glfw'', ''openal'', ''app''])" by code_simp
  from 0 example_registry_edge example_registry_order 1 2 3 show ?thesis by (intro conjI)
qed

text \<open>
  C1 as stated fails on a cycle: with \<open>A\<close> depending on \<open>B\<close> and \<open>B\<close> on \<open>A\<close>,
  the order from \<open>A\<close> is \<open>B\<close>, \<open>A\<close>; the dependency \<open>A\<close> of \<open>B\<close> is in the
  order, yet \<open>B\<close> comes before it.
\<close>

theorem cycle_member_precedes_dependency:
  "topological_modules 2 1000 ''A'' example_cycle = Inr [''B'', ''A''] \<and>
   [''B'', ''A''] ! 0 = ''B'' \<and>
   (''B'', ''A'') \<in> dep_edges example_cycle \<and>
   ''A'' \<in> set [''B'', ''A''] \<and>
   ''A'' \<notin> set (take 0 [''B'', ''A''])"
  using example_cycle_order example_cycle_back_edge by simp




section \<open>Properties of flag composition\<close>

lemma append_unique_distinct: "distinct items \<Longrightarrow> distinct (append_unique items v)"
  by (simp add: append_unique_def)

lemma fold_append_unique_distinct:
  "distinct items \<Longrightarrow> distinct (fold (\<lambda>flag acc. append_unique acc flag) flags items)"
  by (induction flags arbitrary: items) (simp_all add: append_unique_distinct)

lemma fold_append_unique_idem:
  "set flags \<subseteq> set items \<Longrightarrow> fold (\<lambda>flag acc. append_unique acc flag) flags items = items"
  by (induction flags arbitrary: items) (simp_all add: append_unique_def)

lemma fold_include_distinct:
  "distinct (fst args) \<Longrightarrow> distinct (snd args) \<Longrightarrow>
     distinct (fst (fold (\<lambda>include_path (c1, c2).
                      (append_unique c1 (''-I'' @ include_path),
                       append_unique c2 (''-I'' @ include_path))) paths args)) \<and>
     distinct (snd (fold (\<lambda>include_path (c1, c2).
                      (append_unique c1 (''-I'' @ include_path),
                       append_unique c2 (''-I'' @ include_path))) paths args))"
proof (induction paths arbitrary: args)
  case Nil
  then show ?case by simp
next
  case (Cons p paths)
  obtain c1 c2 where a: "args = (c1, c2)" by (cases args)
  with Cons.prems have "distinct (append_unique c1 (''-I'' @ p))"
    "distinct (append_unique c2 (''-I'' @ p))"
    by (simp_all add: append_unique_distinct)
  with Cons.IH [of "(append_unique c1 (''-I'' @ p), append_unique c2 (''-I'' @ p))"] a
  show ?case by simp
qed

lemma add_module_include_flags_distinct:
  "distinct (fst args) \<Longrightarrow> distinct (snd args) \<Longrightarrow>
     distinct (fst (add_module_include_flags env m block target args)) \<and>
     distinct (snd (add_module_include_flags env m block target args))"
  unfolding add_module_include_flags_def by (rule fold_include_distinct)

lemma add_dependency_flags_distinct:
  "distinct (fst cargs) \<Longrightarrow> distinct (snd cargs) \<Longrightarrow>
     distinct (fst (fst (add_dependency_flags env m target abi reg deps (cargs, ld)))) \<and>
     distinct (snd (fst (add_dependency_flags env m target abi reg deps (cargs, ld))))"
proof (induction deps arbitrary: cargs ld)
  case Nil
  then show ?case by simp
next
  case (Cons d deps)
  show ?case
  proof (cases "strip d = [] \<or> strip d = name m")
    case True
    with Cons show ?thesis by (auto simp: Let_def)
  next
    case False
    show ?thesis
    proof (cases "fmlookup reg (strip d)")
      case None
      with False Cons show ?thesis by (auto simp: Let_def)
    next
      case (Some dep)
      let ?c = "add_module_include_flags env dep (module_platform_block dep target) target cargs"
      from add_module_include_flags_distinct [OF Cons.prems]
      have "distinct (fst ?c)" "distinct (snd ?c)" by simp_all
      from Cons.IH [OF this] False Some show ?thesis
        by (simp add: Let_def)
    qed
  qed
qed

lemma collect_module_build_flags_distinct:
  assumes "collect_module_build_flags env m target abi reg = (cc, cpp, ld)"
  shows "distinct cc \<and> distinct cpp"
proof -
  let ?block = "module_platform_block m target"
  let ?i = "add_module_include_flags env m ?block target ([], [])"
  let ?cc2 = "fold (\<lambda>flag acc. append_unique acc flag) (cc_args ?block)
                (fold (\<lambda>flag acc. append_unique acc flag) (main_cc_args m) (fst ?i))"
  let ?cpp2 = "fold (\<lambda>flag acc. append_unique acc flag) (cpp_args ?block)
                (fold (\<lambda>flag acc. append_unique acc flag) (main_cpp_args m) (snd ?i))"
  let ?d = "add_dependency_flags env m target abi reg (depends m) ((?cc2, ?cpp2), [])"
  have i: "distinct (fst ?i)" "distinct (snd ?i)"
    using add_module_include_flags_distinct [of "([], [])" env m ?block target] by simp_all
  have "distinct ?cc2" "distinct ?cpp2"
    by (simp_all add: fold_append_unique_distinct i)
  then have "distinct (fst (fst ?d))" "distinct (snd (fst ?d))"
    using add_dependency_flags_distinct [of "(?cc2, ?cpp2)" env m target abi reg "depends m" "[]"]
    by simp_all
  moreover from assms have "cc = fst (fst ?d)" "cpp = snd (fst ?d)"
    by (auto simp: collect_module_build_flags_def Let_def case_prod_beta)
  ultimately show ?thesis by simp
qed


lemma fold_append_unique_set:
  "set (fold (\<lambda>flag acc. append_unique acc flag) flags items) =
     set items \<union> {f \<in> set flags. f \<noteq> []}"
  by (induction flags arbitrary: items) (auto simp: append_unique_def)

lemma fold_append_unique_present:
  "{f \<in> set flags. f \<noteq> []} \<subseteq> set items \<Longrightarrow>
     fold (\<lambda>flag acc. append_unique acc flag) flags items = items"
  by (induction flags arbitrary: items) (auto simp: append_unique_def)

lemma fold_append_unique_twice:
  "fold (\<lambda>flag acc. append_unique acc flag) flags
     (fold (\<lambda>flag acc. append_unique acc flag) flags items) =
   fold (\<lambda>flag acc. append_unique acc flag) flags items"
  by (rule fold_append_unique_present) (auto simp: fold_append_unique_set)

lemma fold_include_pair:
  "fold (\<lambda>include_path (c1, c2).
           (append_unique c1 (''-I'' @ include_path), append_unique c2 (''-I'' @ include_path)))
        paths (c1, c2) =
     (fold (\<lambda>flag acc. append_unique acc flag) (map (\<lambda>p. ''-I'' @ p) paths) c1,
      fold (\<lambda>flag acc. append_unique acc flag) (map (\<lambda>p. ''-I'' @ p) paths) c2)"
  by (induction paths arbitrary: c1 c2) simp_all

lemma add_module_include_flags_fold:
  "add_module_include_flags env m (module_platform_block m target) target (c1, c2) =
     (fold (\<lambda>flag acc. append_unique acc flag) (include_flags env m target) c1,
      fold (\<lambda>flag acc. append_unique acc flag) (include_flags env m target) c2)"
  unfolding add_module_include_flags_def include_flags_def by (rule fold_include_pair)

lemma add_dependency_flags_fold:
  "fst (add_dependency_flags env m target abi reg deps ((c1, c2), ld)) =
     (fold (\<lambda>flag acc. append_unique acc flag) (dependency_include_flags env m target reg deps) c1,
      fold (\<lambda>flag acc. append_unique acc flag) (dependency_include_flags env m target reg deps) c2)"
proof (induction deps arbitrary: c1 c2 ld)
  case Nil
  show ?case by simp
next
  case (Cons d deps)
  show ?case
  proof (cases "strip d = [] \<or> strip d = name m")
    case True
    with Cons show ?thesis by (auto simp: Let_def)
  next
    case False
    show ?thesis
    proof (cases "fmlookup reg (strip d)")
      case None
      with False Cons show ?thesis by (auto simp: Let_def)
    next
      case (Some dep)
      with False Cons show ?thesis
        by (simp add: Let_def add_module_include_flags_fold)
    qed
  qed
qed

lemma compile_steps_fold:
  "compile_steps env m target abi reg (c1, c2) =
     (fold (\<lambda>flag acc. append_unique acc flag)
        (include_flags env m target @ main_cc_args m @ cc_args (module_platform_block m target)
           @ dependency_include_flags env m target reg (depends m)) c1,
      fold (\<lambda>flag acc. append_unique acc flag)
        (include_flags env m target @ main_cpp_args m @ cpp_args (module_platform_block m target)
           @ dependency_include_flags env m target reg (depends m)) c2)"
  by (simp add: compile_steps_def Let_def add_module_include_flags_fold add_dependency_flags_fold)

lemma compile_steps_twice:
  "compile_steps env m target abi reg (compile_steps env m target abi reg ([], [])) =
     compile_steps env m target abi reg ([], [])"
  by (simp only: compile_steps_fold fold_append_unique_twice)

lemma collect_module_build_flags_compile:
  assumes "collect_module_build_flags env m target abi reg = (cc, cpp, ld)"
  shows "(cc, cpp) = compile_steps env m target abi reg ([], [])"
  using assms
  by (auto simp: collect_module_build_flags_def compile_steps_def Let_def case_prod_beta)

text \<open>
  C5 (as amended).  The C and C++ compile-flag lists returned by flag composition
  are free of duplicates.  They are the result of the compile-flag steps on
  empty lists, and running these steps a second time on the returned lists
  gives the same lists again, with no growth.  Nothing is said about the link
  list.
\<close>

theorem flag_composition_distinct:
  assumes "collect_module_build_flags env m target abi reg = (cc, cpp, ld)"
  shows "distinct cc \<and> distinct cpp \<and>
         (cc, cpp) = compile_steps env m target abi reg ([], []) \<and>
         compile_steps env m target abi reg (cc, cpp) = (cc, cpp)"
  using collect_module_build_flags_distinct [OF assms]
        collect_module_build_flags_compile [OF assms]
        compile_steps_twice [of env m target abi reg]
  by simp

theorem flag_composition_distinct_witness:
  "collect_module_build_flags example_env example_dup_module ''desktop'' 0 example_registry =
     ([''-I/modules/app/src'', ''-I/modules/app/include'', ''-I/modules/app/include/linux'',
       ''-Wall'', ''-DX'', ''-I/modules/glfw/src'', ''-I/modules/glfw/include'',
       ''-I/modules/glfw/include/linux''],
      [''-I/modules/app/src'', ''-I/modules/app/include'', ''-I/modules/app/include/linux'',
       ''-Wall'', ''-I/modules/glfw/src'', ''-I/modules/glfw/include'',
       ''-I/modules/glfw/include/linux''],
      [''-L/modules/glfw/Linux'', ''-lm'', ''-lm'']) \<and>
   distinct [''-I/modules/app/src'', ''-I/modules/app/include'', ''-I/modules/app/include/linux'',
       ''-Wall'', ''-DX'', ''-I/modules/glfw/src'', ''-I/modules/glfw/include'',
       ''-I/modules/glfw/include/linux''] \<and>
   compile_steps example_env example_dup_module ''desktop'' 0 example_registry
     ([''-I/modules/app/src'', ''-I/modules/app/include'', ''-I/modules/app/include/linux'',
       ''-Wall'', ''-DX'', ''-I/modules/glfw/src'', ''-I/modules/glfw/include'',
       ''-I/modules/glfw/include/linux''],
      [''-I/modules/app/src'', ''-I/modules/app/include'', ''-I/modules/app/include/linux'',
       ''-Wall'', ''-I/modules/glfw/src'', ''-I/modules/glfw/include'',
       ''-I/modules/glfw/include/linux'']) =
     ([''-I/modules/app/src'', ''-I/modules/app/include'', ''-I/modules/app/include/linux'',
       ''-Wall'', ''-DX'', ''-I/modules/glfw/src'', ''-I/modules/glfw/include'',
       ''-I/modules/glfw/include/linux''],
      [''-I/modules/app/src'', ''-I/modules/app/include'', ''-I/modules/app/include/linux'',
       ''-Wall'', ''-I/modules/glfw/src'', ''-I/modules/glfw/include'',
       ''-I/modules/glfw/include/linux''])"
proof -
  have e: "collect_module_build_flags example_env example_dup_module ''desktop'' 0 example_registry =
     ([''-I/modules/app/src'', ''-I/modules/app/include'', ''-I/modules/app/include/linux'',
       ''-Wall'', ''-DX'', ''-I/modules/glfw/src'', ''-I/modules/glfw/include'',
       ''-I/modules/glfw/include/linux''],
      [''-I/modules/app/src'', ''-I/modules/app/include'', ''-I/modules/app/include/linux'',
       ''-Wall'', ''-I/modules/glfw/src'', ''-I/modules/glfw/include'',
       ''-I/modules/glfw/include/linux''],
      [''-L/modules/glfw/Linux'', ''-lm'', ''-lm''])"
    by code_simp
  note t = flag_composition_distinct [OF e]
  from e t [THEN conjunct1] t [THEN conjunct2, THEN conjunct2, THEN conjunct2]
  show ?thesis by (intro conjI)
qed

text \<open>
  C5 as stated fails: with two dependencies that both declare the link flag
  \<open>-lm\<close>, the link list contains \<open>-lm\<close> twice.
\<close>

theorem link_flags_not_distinct:
  "\<not> distinct (snd (snd (collect_module_build_flags example_env
        (example_module ''app'' [''glfw'', ''openal''] []) ''desktop'' 0 example_registry)))"
  by code_simp

section \<open>Properties of the incremental build decision\<close>

lemma android_compile_decision_correct:
  "android_compile_decision True s obj = Recompile"
  "android_compile_decision False s None = Recompile"
  "s < t \<Longrightarrow> android_compile_decision False s (Some t) = Skip"
  "t < s \<Longrightarrow> android_compile_decision False s (Some t) = Recompile"
  by (simp_all add: android_compile_decision_def)

lemma desktop_compile_decision_forced:
  "desktop_compile_decision tz True s obj = Recompile"
  "desktop_compile_decision tz False s None = Recompile"
  by (simp_all add: desktop_compile_decision_def)

text \<open>
  C3.  \<open>desktop_compile\<close> does not decide by age.  With the object one day
  older than the source (object Thursday 1 January 1970, source Friday
  2 January 1970, UTC) it skips the file, and with the source one day older
  than the object it recompiles; the same happens for a source of Friday
  17 November 2023 and an object of Tuesday 14 November 2023.
\<close>

theorem desktop_compile_decision_by_weekday:
  "desktop_compile_decision 0 False 86400 (Some 0) = Skip \<and>
   desktop_compile_decision 0 False 0 (Some 86400) = Recompile \<and>
   ctime 0 0 = ''Thu Jan  1 00:00:00 1970'' \<and>
   ctime 0 86400 = ''Fri Jan  2 00:00:00 1970'' \<and>
   desktop_compile_decision 0 False 1700259200 (Some 1700000000) = Skip \<and>
   ctime 0 1700259200 = ''Fri Nov 17 22:13:20 2023'' \<and>
   ctime 0 1700000000 = ''Tue Nov 14 22:13:20 2023''"
  by code_simp

section \<open>Properties of the Android ABI loop\<close>

lemma android_abi_loop_eq:
  "android_abi_loop step_ok abi_list (ok, steps) =
     (ok \<and> list_all (\<lambda>abi. step_ok (AndroidCompile abi) \<and> step_ok (AndroidBuild abi)) abi_list,
      steps @ concat (map (\<lambda>abi. if step_ok (AndroidCompile abi)
                                  then [AndroidCompile abi, AndroidBuild abi]
                                  else [AndroidCompile abi]) abi_list))"
  by (induction abi_list arbitrary: ok steps) auto

text \<open>
  C7 (as amended).  When the module supports the target and has sources, the
  Android branch compiles every ABI of the list in turn and links each ABI
  whose compilation succeeded; a failure only skips the link step of the failing
  ABI, and the result is true exactly when every compile and link succeeded.
\<close>

theorem build_module_target_android:
  assumes "system module = [] \<or> module_system_name env ''android'' \<in> set (system module)"
      and "srcs \<noteq> []"
  shows "build_module_target env step_ok module srcs ''android'' abi_list =
     (list_all (\<lambda>abi. step_ok (AndroidCompile abi) \<and> step_ok (AndroidBuild abi)) abi_list,
      concat (map (\<lambda>abi. if step_ok (AndroidCompile abi)
                          then [AndroidCompile abi, AndroidBuild abi]
                          else [AndroidCompile abi]) abi_list))"
  using assms by (auto simp: build_module_target_def android_abi_loop_eq)

theorem build_module_target_android_witness:
  "(system (example_module ''raylib'' [] []) = [] \<or>
      module_system_name example_env ''android'' \<in> set (system (example_module ''raylib'' [] []))) \<and>
   [''/modules/raylib/src/main.c''] \<noteq> [] \<and>
   build_module_target example_env (\<lambda>s. s \<noteq> AndroidBuild 0) (example_module ''raylib'' [] [])
       [''/modules/raylib/src/main.c''] ''android'' [0, 1] =
     (False, [AndroidCompile 0, AndroidBuild 0, AndroidCompile 1, AndroidBuild 1])"
proof -
  have a: "system (example_module ''raylib'' [] []) = [] \<or>
      module_system_name example_env ''android'' \<in> set (system (example_module ''raylib'' [] []))"
    by (simp add: example_module_def)
  have b: "[''/modules/raylib/src/main.c''] \<noteq> []" by simp
  from build_module_target_android [OF a b, of "\<lambda>s. s \<noteq> AndroidBuild 0" "[0, 1]"] a
  show ?thesis by simp
qed

text \<open>
  C7 as stated fails: after the compilation for the first ABI has failed, the
  second ABI is still compiled and linked.
\<close>

theorem build_module_target_continues_after_failure:
  "build_module_target example_env (\<lambda>s. s \<noteq> AndroidCompile 0) (example_module ''raylib'' [] [])
       [''/modules/raylib/src/main.c''] ''android'' [0, 1] =
     (False, [AndroidCompile 0, AndroidCompile 1, AndroidBuild 1])"
  by (simp add: build_module_target_def example_module_def)

end
